theory Spec2Isabelle
  imports Main "HOL-Library.Product_Lexorder" "HOL-Library.Signed_Division" "HOL-Library.Multiset"
begin

section \<open>Strings as the program sees them\<close>

text \<open>
  A Go string is a sequence of bytes; it is modelled as \<^typ>\<open>string\<close>, a list of
  8-bit characters. The functions of package \<open>strings\<close> that \<open>main.go\<close> calls are
  modelled below. Every separator, prefix and cut-set the program passes is a
  single ASCII byte, so a separator is a \<^typ>\<open>char\<close>.
\<close>

text \<open>\<open>strings.Split(s, sep)\<close>: the pieces of \<open>s\<close> between the occurrences of \<open>sep\<close>;
  the empty string gives one empty piece. The result is never empty, so the
  first branch of the \<open>case\<close> is not reached.\<close>

fun split :: "char \<Rightarrow> string \<Rightarrow> string list" where
  "split sep [] = [[]]"
| "split sep (c # cs) =
     (if c = sep then [] # split sep cs
      else (case split sep cs of [] \<Rightarrow> [[c]] | p # ps \<Rightarrow> (c # p) # ps))"

text \<open>\<open>strings.Join(elems, sep)\<close>.\<close>

fun join :: "string \<Rightarrow> string list \<Rightarrow> string" where
  "join sep [] = []"
| "join sep [x] = x"
| "join sep (x # y # ys) = x @ sep @ join sep (y # ys)"

text \<open>\<open>strings.HasPrefix(s, p)\<close>.\<close>

definition hasPrefix :: "string \<Rightarrow> string \<Rightarrow> bool" where
  "hasPrefix s p = (take (length p) s = p)"

text \<open>\<open>strings.TrimPrefix(s, p)\<close>.\<close>

definition trimPrefix :: "string \<Rightarrow> string \<Rightarrow> string" where
  "trimPrefix s p = (if hasPrefix s p then drop (length p) s else s)"

text \<open>\<open>strings.TrimRight(s, "\n")\<close>: \<open>s\<close> without its trailing line feeds.\<close>

definition trimRightNL :: "string \<Rightarrow> string" where
  "trimRightNL s = rev (dropWhile (\<lambda>c. c = CHR 0x0A) (rev s))"

text \<open>\<open>strings.SplitN(s, sep, 2)\<close>: cut at the first separator, if there is one.\<close>

definition splitN2 :: "char \<Rightarrow> string \<Rightarrow> string list" where
  "splitN2 sep s =
     (if sep \<in> set s
      then [takeWhile (\<lambda>c. c \<noteq> sep) s, tl (dropWhile (\<lambda>c. c \<noteq> sep) s)]
      else [s])"

text \<open>
  \<open>strings.ToUpper\<close> and \<open>strings.ToLower\<close>. On a string of ASCII bytes only, Go maps
  each byte in \<open>'a'..'z'\<close> to \<open>c - ('a' - 'A')\<close> (and back for \<open>ToLower\<close>). On any
  other string it maps the runes through the Unicode tables of the standard
  library; that mapping is the parameter \<open>uni\<close>, and the theorems below hold for
  every such mapping.
\<close>

definition upperByte :: "char \<Rightarrow> char" where
  "upperByte c =
     (let n = (of_char c :: nat) in if 97 \<le> n \<and> n \<le> 122 then char_of (n - 32) else c)"

definition lowerByte :: "char \<Rightarrow> char" where
  "lowerByte c =
     (let n = (of_char c :: nat) in if 65 \<le> n \<and> n \<le> 90 then char_of (n + 32) else c)"

definition isASCII :: "string \<Rightarrow> bool" where
  "isASCII s = list_all (\<lambda>c. (of_char c :: nat) < 128) s"

definition ToUpper :: "(string \<Rightarrow> string) \<Rightarrow> string \<Rightarrow> string" where
  "ToUpper uni s = (if isASCII s then map upperByte s else uni s)"

definition ToLower :: "(string \<Rightarrow> string) \<Rightarrow> string \<Rightarrow> string" where
  "ToLower uni s = (if isASCII s then map lowerByte s else uni s)"

text \<open>Two ASCII labels that differ only in the case of their letters.\<close>

definition sameUpToCase :: "string \<Rightarrow> string \<Rightarrow> bool" where
  "sameUpToCase s t = (isASCII s \<and> isASCII t \<and> map lowerByte s = map lowerByte t)"

section \<open>Rank ordering model\<close>

text \<open>
  \<open>getRankValues\<close> builds two Go maps and reads them at the upper-cased labels. A Go
  map read at a missing key gives the zero value of the element type, here 0.
  Go's \<open>int\<close> is 64 bits wide on the build target; the ordinals and league points are only
  compared, never computed with, so they are modelled as \<^typ>\<open>int\<close>.
\<close>

definition tierMap :: "string \<rightharpoonup> int" where
  "tierMap = map_of
     [(''CHALLENGER'', 10), (''GRANDMASTER'', 9), (''MASTER'', 8), (''DIAMOND'', 7),
      (''EMERALD'', 6), (''PLATINUM'', 5), (''GOLD'', 4), (''SILVER'', 3),
      (''BRONZE'', 2), (''IRON'', 1), (''UNRANKED'', 0)]"

definition rankMap :: "string \<rightharpoonup> int" where
  "rankMap = map_of [(''I'', 4), (''II'', 3), (''III'', 2), (''IV'', 1), ('''', 0)]"

definition mapGet :: "(string \<rightharpoonup> int) \<Rightarrow> string \<Rightarrow> int" where
  "mapGet m k = (case m k of None \<Rightarrow> 0 | Some v \<Rightarrow> v)"

definition getRankValues :: "(string \<Rightarrow> string) \<Rightarrow> string \<Rightarrow> string \<Rightarrow> int \<times> int" where
  "getRankValues uni tier rank = (mapGet tierMap (ToUpper uni tier), mapGet rankMap (ToUpper uni rank))"

text \<open>The known vocabulary, lowest first.\<close>

definition tierVocabulary :: "string list" where
  "tierVocabulary =
     [''UNRANKED'', ''IRON'', ''BRONZE'', ''SILVER'', ''GOLD'', ''PLATINUM'', ''EMERALD'',
      ''DIAMOND'', ''MASTER'', ''GRANDMASTER'', ''CHALLENGER'']"

definition divisionVocabulary :: "string list" where
  "divisionVocabulary = ['''', ''IV'', ''III'', ''II'', ''I'']"

section \<open>Data model\<close>

text \<open>
  The structs of \<open>main.go\<close>, with the fields the handlers read. Two Go structs
  may share a field name, two records may not: the fields of \<open>LeagueEntryDTO\<close>,
  \<open>SummonerDTO\<close> and \<open>ParticipantDTO\<close> carry a prefix.
\<close>

record AccountDTO =
  PUUID :: string
  GameName :: string
  TagLine :: string

record SummonerDTO =
  ID :: string
  summoner_PUUID :: string

record LeagueEntryDTO =
  QueueType :: string
  entry_Tier :: string
  entry_Rank :: string
  entry_LeaguePoints :: int
  Wins :: int
  Losses :: int

record PlayerRankInfo =
  RiotID :: string
  Tier :: string
  Rank :: string
  LeaguePoints :: int
  TierValue :: int
  RankValue :: int

record ParticipantDTO =
  participant_PUUID :: string
  Win :: bool

text \<open>\<open>MatchDTO.Info\<close>: \<open>GameCreation\<close> is an \<open>int64\<close> of Unix milliseconds.\<close>

record MatchDTO =
  GameCreation :: int
  QueueID :: int
  Participants :: "ParticipantDTO list"

text \<open>A Go \<open>error\<close> value: the one kind the program tells apart
  (\<open>os.IsNotExist\<close>), and every other error with its text.\<close>

datatype error = ErrNotExist | ErrOther string

section \<open>The collaborators: remote service, chat transport, clock, file system\<close>

text \<open>
  The five functions at the end of \<open>main.go\<close> perform one HTTP request each and
  return the decoded body or an error. What the remote service answers is not
  decided by the program, so each of them is a field of the environment, a
  function of the request. The chat transport (\<open>ChannelMessageSend\<close>,
  \<open>ChannelMessageEdit\<close>), the clock (\<open>time.Now\<close>, in Unix seconds), the outcome of
  \<open>os.ReadFile\<close> and \<open>os.WriteFile\<close> beyond the file's content, and the parts of
  the standard library that work on Unicode text are fields of it too.
\<close>

record env =
  getAccountByRiotID :: "string \<Rightarrow> string \<Rightarrow> error + AccountDTO"
  getSummonerByPUUID :: "string \<Rightarrow> error + SummonerDTO"
  getLeagueEntriesBySummonerID :: "string \<Rightarrow> error + LeagueEntryDTO list"
  getMatchIDsByPUUIDInTimeRange :: "string \<Rightarrow> int \<Rightarrow> int \<Rightarrow> int \<Rightarrow> int \<Rightarrow> error + string list"
  getMatchDetails :: "string \<Rightarrow> error + MatchDTO"
  sendFails :: bool
  editFails :: bool
  timeNow :: int
  readFault :: "error option"
  writeFault :: "error option"
  unicodeUpper :: "string \<Rightarrow> string"
  unicodeLower :: "string \<Rightarrow> string"
  stringsTitle :: "string \<Rightarrow> string"
  stringsTrimSpace :: "string \<Rightarrow> string"
  urlPathEscape :: "string \<Rightarrow> string"

text \<open>What a handler does to the outside, in order: it sleeps for
  \<open>apiRequestDelay\<close>, calls the remote service, sends or edits a chat message.\<close>

datatype request =
  AccountReq string string
  | SummonerReq string
  | LeagueReq string
  | MatchIDsReq string int int int int
  | MatchDetailReq string

text \<open>A rendered leaderboard line: the \<open>fmt.Sprintf\<close> format chosen, with its
  arguments (position, Riot ID, profile link, tier in title case, division,
  league points).\<close>

datatype line =
  TitleLine
  | UnrankedLinkLine nat string string
  | UnrankedPlainLine nat string
  | RankedLinkLine nat string string string string int
  | RankedPlainLine nat string string string int

text \<open>A chat message: the texts are fixed Japanese literals, so a message is
  its kind with the values formatted into it.\<close>

text \<open>One line of the answer to \<open>!rank\<close>.\<close>

datatype rankInfo =
  RankFormatInfo string
  | RankAccountFailedInfo string
  | RankSummonerFailedInfo string
  | RankLeagueFailedInfo string
  | RankSoloInfo string string string int int int
  | RankNoSoloInfo string

datatype message =
  NoRosterMsg
  | RankingProcessingMsg
  | RankingMsg "line list"
  | NoRankDataMsg
  | AddMissingMsg
  | AddFormatMsg
  | AlreadyAddedMsg string
  | VerifyFailedMsg string
  | AddFailedMsg string
  | AddedMsg string
  | DayUsageMsg
  | DayFormatMsg string
  | DateFormatMsg
  | DayProcessingMsg string int int
  | DayAccountFailedMsg string
  | DayHistoryFailedMsg string int int
  | DayNoGamesMsg string int int
  | DayResultMsg string int int int int
  | RankUsageMsg
  | RankMsg "rankInfo list"
  | HelpMsg

datatype event = Sleep | Call request | Send message | Edit message

text \<open>The mutable state: the package variable \<open>lolPlayersEnv\<close> and the content
  of the file \<open>../.env\<close> (\<open>None\<close> when the file does not exist).\<close>

record state =
  lolPlayersEnv :: "string list"
  envFile :: "string option"

section \<open>Leaderboard: comparator and stable sort\<close>

text \<open>The \<open>less\<close> function passed to \<open>sort.SliceStable\<close>.\<close>

definition rankLess :: "PlayerRankInfo \<Rightarrow> PlayerRankInfo \<Rightarrow> bool" where
  "rankLess a b =
     (if TierValue a \<noteq> TierValue b then TierValue a > TierValue b
      else if RankValue a \<noteq> RankValue b then RankValue a > RankValue b
      else LeaguePoints a > LeaguePoints b)"

text \<open>
  \<open>sort.SliceStable\<close> belongs to the standard library. On a slice of at most 20
  elements it runs the insertion sort below (\<open>for j := i; j > a && less(j, j-1); j--
  { swap(j, j-1) }\<close>); longer slices are sorted in blocks of 20 by the same
  insertion sort and the blocks merged stably. \<open>bubbleLeft\<close> moves the new element
  towards the front of the already sorted prefix, which it receives nearest
  neighbour first.
\<close>

fun bubbleLeft :: "('a \<Rightarrow> 'a \<Rightarrow> bool) \<Rightarrow> 'a \<Rightarrow> 'a list \<Rightarrow> 'a list" where
  "bubbleLeft lt x [] = [x]"
| "bubbleLeft lt x (y # ys) = (if lt x y then y # bubbleLeft lt x ys else x # y # ys)"

definition sliceStable :: "('a \<Rightarrow> 'a \<Rightarrow> bool) \<Rightarrow> 'a list \<Rightarrow> 'a list" where
  "sliceStable lt xs = rev (foldl (\<lambda>acc x. bubbleLeft lt x acc) [] xs)"

text \<open>The sort key of a player: tier ordinal, division ordinal, league points,
  compared lexicographically.\<close>

definition sortKey :: "PlayerRankInfo \<Rightarrow> int \<times> int \<times> int" where
  "sortKey p = (TierValue p, RankValue p, LeaguePoints p)"

section \<open>Leaderboard aggregation (the \<open>!ranking\<close> branch of \<open>messageCreate\<close>)\<close>

definition unrankedInfo :: "string \<Rightarrow> PlayerRankInfo" where
  "unrankedInfo raw =
     \<lparr>RiotID = raw, Tier = ''UNRANKED'', Rank = '''', LeaguePoints = 0,
      TierValue = - 1, RankValue = - 1\<rparr>"

definition rankedInfo :: "env \<Rightarrow> string \<Rightarrow> LeagueEntryDTO \<Rightarrow> PlayerRankInfo" where
  "rankedInfo e raw entry =
     (let (tierVal, rankVal) = getRankValues (unicodeUpper e) (entry_Tier entry) (entry_Rank entry)
      in \<lparr>RiotID = raw, Tier = entry_Tier entry, Rank = entry_Rank entry,
          LeaguePoints = entry_LeaguePoints entry, TierValue = tierVal, RankValue = rankVal\<rparr>)"

text \<open>One iteration of the loop over \<open>lolPlayersEnv\<close>: each \<open>continue\<close> leaves
  \<open>playerRanks\<close> as it was.\<close>

definition rankingStep ::
  "env \<Rightarrow> PlayerRankInfo list \<times> event list \<Rightarrow> string \<Rightarrow> PlayerRankInfo list \<times> event list" where
  "rankingStep e acc rawSummonerName =
     (let (playerRanks, tr) = acc;
          tr = tr @ [Sleep];
          parts = split CHR ''#'' rawSummonerName
      in if length parts \<noteq> 2 then (playerRanks, tr)
         else
           let gameName = parts ! 0; tagLine = parts ! 1;
               tr = tr @ [Call (AccountReq gameName tagLine)]
           in case getAccountByRiotID e gameName tagLine of
                Inl err \<Rightarrow> (playerRanks, tr)
              | Inr account \<Rightarrow>
                  let tr = tr @ [Sleep, Call (SummonerReq (PUUID account))]
                  in case getSummonerByPUUID e (PUUID account) of
                       Inl err \<Rightarrow> (playerRanks, tr)
                     | Inr summoner \<Rightarrow>
                         let tr = tr @ [Sleep, Call (LeagueReq (ID summoner))]
                         in case getLeagueEntriesBySummonerID e (ID summoner) of
                              Inl err \<Rightarrow> (playerRanks, tr)
                            | Inr leagueEntries \<Rightarrow>
                                (case find (\<lambda>entry. QueueType entry = ''RANKED_SOLO_5x5'') leagueEntries of
                                   Some entry \<Rightarrow> (playerRanks @ [rankedInfo e rawSummonerName entry], tr)
                                 | None \<Rightarrow> (playerRanks @ [unrankedInfo rawSummonerName], tr)))"

definition rankingLoop :: "env \<Rightarrow> string list \<Rightarrow> PlayerRankInfo list \<times> event list" where
  "rankingLoop e roster = foldl (rankingStep e) ([], []) roster"

text \<open>The slice \<open>playerRanks\<close> after \<open>sort.SliceStable\<close>.\<close>

definition sortedRanks :: "env \<Rightarrow> string list \<Rightarrow> PlayerRankInfo list" where
  "sortedRanks e roster = sliceStable rankLess (fst (rankingLoop e roster))"

text \<open>One rendered line for the player at index \<open>i\<close>.\<close>

definition renderLine :: "env \<Rightarrow> nat \<Rightarrow> PlayerRankInfo \<Rightarrow> line" where
  "renderLine e i pr =
     (let riotIDParts = split CHR ''#'' (RiotID pr);
          opggLink =
            (if length riotIDParts = 2
             then ''https://www.op.gg/summoners/jp/'' @ urlPathEscape e (riotIDParts ! 0) @ ''-''
                    @ urlPathEscape e (riotIDParts ! 1)
             else '''')
      in if Tier pr = ''UNRANKED''
         then (if opggLink \<noteq> '''' then UnrankedLinkLine (i + 1) (RiotID pr) opggLink
               else UnrankedPlainLine (i + 1) (RiotID pr))
         else (if opggLink \<noteq> ''''
               then RankedLinkLine (i + 1) (RiotID pr) opggLink
                      (stringsTitle e (ToLower (unicodeLower e) (Tier pr))) (Rank pr) (LeaguePoints pr)
               else RankedPlainLine (i + 1) (RiotID pr)
                      (stringsTitle e (ToLower (unicodeLower e) (Tier pr))) (Rank pr) (LeaguePoints pr)))"

definition rankedMessages :: "env \<Rightarrow> PlayerRankInfo list \<Rightarrow> line list" where
  "rankedMessages e playerRanks =
     TitleLine # map (\<lambda>(i, pr). renderLine e i pr) (enumerate 0 playerRanks)"

text \<open>Replacing the placeholder by the final message: edit it when it was
  sent, send a new message when it was not or when the edit fails.\<close>

definition deliver :: "env \<Rightarrow> message \<Rightarrow> event list" where
  "deliver e finalMessage =
     (if \<not> sendFails e
      then (if editFails e then [Edit finalMessage, Send finalMessage] else [Edit finalMessage])
      else [Send finalMessage])"

definition handleRanking :: "env \<Rightarrow> state \<Rightarrow> event list" where
  "handleRanking e st =
     (if length (lolPlayersEnv st) = 0 then [Send NoRosterMsg]
      else
        let (collected, tr) = rankingLoop e (lolPlayersEnv st);
            playerRanks = sliceStable rankLess collected
        in [Send RankingProcessingMsg] @ tr @
           (if length playerRanks > 0 then deliver e (RankingMsg (rankedMessages e playerRanks))
            else deliver e NoRankDataMsg))"

section \<open>Calendar time (package \<open>time\<close> of Go 1.22, the version the Dockerfile builds with)\<close>

text \<open>
  Every \<open>time.Time\<close> of \<open>handleDayStatsCommand\<close> lives in the fixed zone
  \<open>time.FixedZone("Asia/Tokyo", 9*60*60)\<close>, which has one offset and no daylight
  saving. A time is modelled by its Unix second: the nanoseconds of \<open>time.Now\<close> are
  carried along by \<open>AddDate\<close> and dropped by \<open>time.Date(..., 5, 0, 0, 0, jst)\<close>, and no
  result depends on them.

  The library counts days from an ``absolute'' year that is 1 modulo 400 and far enough in
  the past for all its arithmetic to be unsigned. The model counts from 1 January of year
  1, which is the same modulo 400 years, with the flooring division of \<^typ>\<open>int\<close>.
\<close>

definition secondsPerDay :: int where "secondsPerDay = 86400"
definition daysPer400Years :: int where "daysPer400Years = 365 * 400 + 97"
definition daysPer100Years :: int where "daysPer100Years = 365 * 100 + 24"
definition daysPer4Years :: int where "daysPer4Years = 365 * 4 + 1"

text \<open>Seconds from 1 January of year 1 to 1 January 1970, and the zone offset.\<close>

definition unixToInternal :: int where
  "unixToInternal = (1969 * 365 + 1969 div 4 - 1969 div 100 + 1969 div 400) * secondsPerDay"

definition jstOffset :: int where "jstOffset = 9 * 60 * 60"

definition isLeap :: "int \<Rightarrow> bool" where
  "isLeap year = (year mod 4 = 0 \<and> (year mod 100 \<noteq> 0 \<or> year mod 400 = 0))"

text \<open>\<open>daysBefore[m]\<close>: the days of a non-leap year before month \<open>m + 1\<close>.\<close>

definition daysBefore :: "int list" where
  "daysBefore = [0, 31, 31 + 28, 31 + 28 + 31, 31 + 28 + 31 + 30, 31 + 28 + 31 + 30 + 31,
     31 + 28 + 31 + 30 + 31 + 30, 31 + 28 + 31 + 30 + 31 + 30 + 31,
     31 + 28 + 31 + 30 + 31 + 30 + 31 + 31, 31 + 28 + 31 + 30 + 31 + 30 + 31 + 31 + 30,
     31 + 28 + 31 + 30 + 31 + 30 + 31 + 31 + 30 + 31,
     31 + 28 + 31 + 30 + 31 + 30 + 31 + 31 + 30 + 31 + 30,
     31 + 28 + 31 + 30 + 31 + 30 + 31 + 31 + 30 + 31 + 30 + 31]"

definition daysIn :: "int \<Rightarrow> int \<Rightarrow> int" where
  "daysIn m year =
     (if m = 2 \<and> isLeap year then 29 else daysBefore ! nat m - daysBefore ! nat (m - 1))"

text \<open>\<open>daysSinceEpoch(year)\<close>: the days before 1 January of \<open>year\<close>, by 400-year,
  100-year and 4-year cycles.\<close>

definition daysSinceEpoch :: "int \<Rightarrow> int" where
  "daysSinceEpoch year =
     (let y = year - 1;
          n400 = y div 400; y1 = y - 400 * n400;
          n100 = y1 div 100; y2 = y1 - 100 * n100;
          n4 = y2 div 4; y3 = y2 - 4 * n4
      in daysPer400Years * n400 + daysPer100Years * n100 + daysPer4Years * n4 + 365 * y3)"

text \<open>
  \<open>time.Date(year, month, day, hour, min, sec, 0, jst).Unix()\<close>. The month is normalised into
  the year; day, hour, minute and second may lie outside their usual ranges and are
  carried into the day count (the carries of the library leave the sum below unchanged).
\<close>

definition timeDate :: "int \<Rightarrow> int \<Rightarrow> int \<Rightarrow> int \<Rightarrow> int \<Rightarrow> int \<Rightarrow> int" where
  "timeDate year month day hour minute sec =
     (let m = month - 1;
          year = year + m div 12;
          m = m mod 12;
          d = daysSinceEpoch year + daysBefore ! nat m
                + (if isLeap year \<and> m + 1 \<ge> 3 then 1 else 0) + (day - 1);
          a = d * secondsPerDay + hour * 3600 + minute * 60 + sec
      in a - unixToInternal - jstOffset)"

text \<open>\<open>t.abs()\<close>: the local seconds since the start of year 1.\<close>

definition absSec :: "int \<Rightarrow> int" where
  "absSec t = t + jstOffset + unixToInternal"

text \<open>\<open>absDate\<close>: year and day of the year (from 0); \<open>n - n >> 2\<close> is \<open>n - n div 4\<close>.\<close>

definition absDate :: "int \<Rightarrow> int \<times> int" where
  "absDate a =
     (let d = a div secondsPerDay;
          n400 = d div daysPer400Years; d1 = d - daysPer400Years * n400;
          n100 = d1 div daysPer100Years; n100' = n100 - n100 div 4;
          d2 = d1 - daysPer100Years * n100';
          n4 = d2 div daysPer4Years; d3 = d2 - daysPer4Years * n4;
          n1 = d3 div 365; n1' = n1 - n1 div 4;
          d4 = d3 - 365 * n1'
      in (400 * n400 + 100 * n100' + 4 * n4 + n1' + 1, d4))"

text \<open>The second half of \<open>absDate\<close>: month and day of the month from the day of the
  year.\<close>

definition monthDay :: "int \<Rightarrow> int \<Rightarrow> int \<times> int" where
  "monthDay year yday =
     (if isLeap year \<and> yday = 31 + 29 - 1 then (2, 29)
      else
        let day = (if isLeap year \<and> yday > 31 + 29 - 1 then yday - 1 else yday);
            month = day div 31;
            end = daysBefore ! nat (month + 1)
        in if day \<ge> end then (month + 2, day - end + 1)
           else (month + 1, day - daysBefore ! nat month + 1))"

text \<open>\<open>t.Year()\<close>, \<open>t.Month()\<close>, \<open>t.Day()\<close>; \<open>t.Hour()\<close>; \<open>t.Clock()\<close>.\<close>

definition timeYMD :: "int \<Rightarrow> int \<times> int \<times> int" where
  "timeYMD t = (let (year, yday) = absDate (absSec t); (month, day) = monthDay year yday
               in (year, month, day))"

definition timeHour :: "int \<Rightarrow> int" where
  "timeHour t = (absSec t mod secondsPerDay) div 3600"

definition timeClock :: "int \<Rightarrow> int \<times> int \<times> int" where
  "timeClock t = (let s = absSec t mod secondsPerDay in (s div 3600, (s mod 3600) div 60, s mod 60))"

text \<open>\<open>t.AddDate(years, months, days)\<close>.\<close>

definition AddDate :: "int \<Rightarrow> int \<Rightarrow> int \<Rightarrow> int \<Rightarrow> int" where
  "AddDate t years months days =
     (let (year, month, day) = timeYMD t; (hour, minute, sec) = timeClock t
      in timeDate (year + years) (month + months) (day + days) hour minute sec)"

text \<open>
  \<open>time.ParseInLocation("20060102", value, jst)\<close>: four digits of year, two of month, two
  of day and nothing else; the month must lie in 1..12 and the day in the month.
\<close>

definition isDigit :: "string \<Rightarrow> nat \<Rightarrow> bool" where
  "isDigit s i = (i < length s \<and> 48 \<le> (of_char (s ! i) :: nat) \<and> (of_char (s ! i) :: nat) \<le> 57)"

definition digitValue :: "char \<Rightarrow> int" where
  "digitValue c = int (of_char c) - 48"

definition getnum2 :: "string \<Rightarrow> (int \<times> string) option" where
  "getnum2 s =
     (if \<not> isDigit s 0 then None
      else if \<not> isDigit s 1 then None
      else Some (digitValue (s ! 0) * 10 + digitValue (s ! 1), drop 2 s))"

definition atoi4 :: "string \<Rightarrow> int option" where
  "atoi4 p =
     (if isDigit p 0 \<and> isDigit p 1 \<and> isDigit p 2 \<and> isDigit p 3
      then Some (foldl (\<lambda>n c. n * 10 + digitValue c) 0 p) else None)"

definition ParseInLocation :: "string \<Rightarrow> error + int" where
  "ParseInLocation value =
     (if length value < 4 \<or> \<not> isDigit value 0 then Inl (ErrOther ''parsing time: year'')
      else case atoi4 (take 4 value) of
        None \<Rightarrow> Inl (ErrOther ''parsing time: year'')
      | Some year \<Rightarrow>
          (case getnum2 (drop 4 value) of
             None \<Rightarrow> Inl (ErrOther ''parsing time: month'')
           | Some (month, value1) \<Rightarrow>
               if month \<le> 0 \<or> 12 < month then Inl (ErrOther ''parsing time: month out of range'')
               else
                 (case getnum2 value1 of
                    None \<Rightarrow> Inl (ErrOther ''parsing time: day'')
                  | Some (day, value2) \<Rightarrow>
                      if length value2 \<noteq> 0 then Inl (ErrOther ''parsing time: extra text'')
                      else if day < 1 \<or> day > daysIn month year
                      then Inl (ErrOther ''parsing time: day out of range'')
                      else Inr (timeDate year month day 0 0 0))))"

section \<open>Day statistics (\<open>handleDayStatsCommand\<close>)\<close>

definition rankedSoloQueueID :: int where "rankedSoloQueueID = 420"

text \<open>The window: \<open>targetDate\<close>, then \<open>startTime\<close> and \<open>endTime\<close> as Unix seconds. The
  only error is that of the date parser.\<close>

definition dayWindow :: "int \<Rightarrow> string \<Rightarrow> error + int \<times> int" where
  "dayWindow now dateStr =
     (case (if dateStr = ''''
            then Inr (if timeHour now < 5 then AddDate now 0 0 (- 1) else now)
            else ParseInLocation dateStr) of
        Inl dateParseError \<Rightarrow> Inl dateParseError
      | Inr targetDate \<Rightarrow>
          let (year, month, day) = timeYMD targetDate;
              startTime = timeDate year month day 5 0 0;
              endTime = AddDate startTime 0 0 1
          in Inr (startTime, endTime))"

text \<open>One iteration of the loop over \<open>matchIDs\<close>. \<open>GameCreation / 1000\<close> is the
  division of \<open>int64\<close>, which truncates towards zero.\<close>

definition tallyStep ::
  "env \<Rightarrow> string \<Rightarrow> int \<Rightarrow> int \<Rightarrow> int \<times> int \<times> event list \<Rightarrow> string \<Rightarrow> int \<times> int \<times> event list" where
  "tallyStep e puuid startTimeUnix endTimeUnix acc matchID =
     (let (wins, losses, tr) = acc;
          tr = tr @ [Sleep, Call (MatchDetailReq matchID)]
      in case getMatchDetails e matchID of
           Inl err \<Rightarrow> (wins, losses, tr)
         | Inr matchDetails \<Rightarrow>
             let matchTimeUnix = GameCreation matchDetails sdiv 1000
             in if matchTimeUnix \<ge> startTimeUnix \<and> matchTimeUnix < endTimeUnix
                   \<and> QueueID matchDetails = rankedSoloQueueID
                then (case find (\<lambda>p. participant_PUUID p = puuid) (Participants matchDetails) of
                        Some p \<Rightarrow> if Win p then (wins + 1, losses, tr) else (wins, losses + 1, tr)
                      | None \<Rightarrow> (wins, losses, tr))
                else (wins, losses, tr))"

definition tallyLoop :: "env \<Rightarrow> string \<Rightarrow> int \<Rightarrow> int \<Rightarrow> string list \<Rightarrow> int \<times> int \<times> event list" where
  "tallyLoop e puuid startTimeUnix endTimeUnix matchIDs =
     foldl (tallyStep e puuid startTimeUnix endTimeUnix) (0, 0, []) matchIDs"

text \<open>Replacing the placeholder without a second attempt, as the error paths and the
  ``no games'' path do.\<close>

definition deliverOnce :: "env \<Rightarrow> message \<Rightarrow> event list" where
  "deliverOnce e msg = (if \<not> sendFails e then [Edit msg] else [Send msg])"

definition handleDayStatsCommand :: "env \<Rightarrow> string \<Rightarrow> event list" where
  "handleDayStatsCommand e content =
     (let args = split CHR '' '' content
      in if length args < 2 then [Send DayUsageMsg]
         else
           let riotID = args ! 1;
               dateStr = (if length args > 2 then args ! 2 else '''');
               parts = split CHR ''#'' riotID
           in if length parts \<noteq> 2 \<or> parts ! 0 = '''' \<or> parts ! 1 = '''' then [Send (DayFormatMsg riotID)]
              else
                let gameName = parts ! 0; tagLine = parts ! 1
                in case dayWindow (timeNow e) dateStr of
                     Inl dateParseError \<Rightarrow> [Send DateFormatMsg]
                   | Inr (startTimeUnix, endTimeUnix) \<Rightarrow>
                       [Send (DayProcessingMsg riotID startTimeUnix endTimeUnix),
                        Call (AccountReq gameName tagLine)] @
                       (case getAccountByRiotID e gameName tagLine of
                          Inl err \<Rightarrow> deliverOnce e (DayAccountFailedMsg riotID)
                        | Inr account \<Rightarrow>
                            [Call (MatchIDsReq (PUUID account) startTimeUnix endTimeUnix rankedSoloQueueID 100)] @
                            (case getMatchIDsByPUUIDInTimeRange e (PUUID account) startTimeUnix endTimeUnix
                                    rankedSoloQueueID 100 of
                               Inl err \<Rightarrow> deliverOnce e (DayHistoryFailedMsg riotID startTimeUnix endTimeUnix)
                             | Inr matchIDs \<Rightarrow>
                                 if length matchIDs = 0
                                 then deliverOnce e (DayNoGamesMsg riotID startTimeUnix endTimeUnix)
                                 else
                                   let (wins, losses, tr) =
                                         tallyLoop e (PUUID account) startTimeUnix endTimeUnix matchIDs
                                   in tr @ deliver e (DayResultMsg riotID startTimeUnix endTimeUnix wins losses))))"

section \<open>The roster file (\<open>updateEnvFile\<close>, \<open>addPlayerToEnvFile\<close>) and the \<open>!add\<close> branch\<close>

text \<open>
  \<open>os.ReadFile\<close> and \<open>os.WriteFile\<close> on \<open>../.env\<close>. A read fails when the environment
  says so or when the file does not exist; a write that fails is modelled as leaving the
  file as it was.
\<close>

definition ReadFile :: "env \<Rightarrow> state \<Rightarrow> error + string" where
  "ReadFile e st =
     (case readFault e of
        Some err \<Rightarrow> Inl err
      | None \<Rightarrow> (case envFile st of None \<Rightarrow> Inl ErrNotExist | Some input \<Rightarrow> Inr input))"

definition WriteFile :: "env \<Rightarrow> string \<Rightarrow> state \<Rightarrow> error option \<times> state" where
  "WriteFile e content st =
     (case writeFault e of
        Some err \<Rightarrow> (Some err, st)
      | None \<Rightarrow> (None, st\<lparr>envFile := Some content\<rparr>))"

text \<open>The first loop of \<open>updateEnvFile\<close>: replace the first line that starts with
  \<open>key=\<close>, and say whether there was one.\<close>

fun replaceFirst :: "string \<Rightarrow> string \<Rightarrow> string list \<Rightarrow> string list \<times> bool" where
  "replaceFirst p new [] = ([], False)"
| "replaceFirst p new (l # ls) =
     (if hasPrefix l p then (new # ls, True)
      else let (ls', found) = replaceFirst p new ls in (l # ls', found))"

text \<open>The lines after the two steps of \<open>updateEnvFile\<close>: the replacement, and when no
  line was replaced the new entry at the end, before a final empty line.\<close>

definition upsertLines :: "string \<Rightarrow> string \<Rightarrow> string list \<Rightarrow> string list" where
  "upsertLines key val lines0 =
     (let (lines, found) = replaceFirst (key @ ''='') (key @ ''='' @ val) lines0
      in if \<not> found
         then (if length lines > 0 \<and> lines ! (length lines - 1) = ''''
               then (if length lines > 1
                     then lines[length lines - 1 := key @ ''='' @ val] @ ['''']
                     else lines[0 := key @ ''='' @ val] @ [''''])
               else lines @ [key @ ''='' @ val])
         else lines)"

definition updateEnvFile :: "env \<Rightarrow> string \<Rightarrow> string \<Rightarrow> state \<Rightarrow> error option \<times> state" where
  "updateEnvFile e key val st =
     (case ReadFile e st of
        Inl err \<Rightarrow>
          if err = ErrNotExist then WriteFile e (key @ ''='' @ val @ [CHR 0x0A]) st
          else (Some err, st)
      | Inr input \<Rightarrow>
          let lines = upsertLines key val (split CHR 0x0A input);
              output = join [CHR 0x0A] lines;
              output = trimRightNL output @ [CHR 0x0A]
          in WriteFile e output st)"

text \<open>The players that \<open>addPlayerToEnvFile\<close> reads from the first line that starts
  with \<open>LOL_PLAYERS=\<close>.\<close>

definition currentPlayersOf :: "string \<Rightarrow> string list" where
  "currentPlayersOf input =
     (case find (\<lambda>line. hasPrefix line (''LOL_PLAYERS'' @ ''='')) (split CHR 0x0A input) of
        None \<Rightarrow> []
      | Some line \<Rightarrow>
          let parts = splitN2 CHR ''='' line
          in if length parts = 2 \<and> parts ! 1 \<noteq> '''' then split CHR '','' (parts ! 1) else [])"

definition addPlayerToEnvFile :: "env \<Rightarrow> string \<Rightarrow> state \<Rightarrow> error option \<times> state" where
  "addPlayerToEnvFile e newPlayerRiotID st =
     (case ReadFile e st of
        Inl err \<Rightarrow>
          if err = ErrNotExist then updateEnvFile e ''LOL_PLAYERS'' newPlayerRiotID st
          else (Some (ErrOther ''failed to read .env file''), st)
      | Inr input \<Rightarrow>
          let currentPlayers = currentPlayersOf input
          in if newPlayerRiotID \<in> set currentPlayers then (None, st)
             else
               let currentPlayers = currentPlayers @ [newPlayerRiotID];
                   cleanedPlayers = filter (\<lambda>p. p \<noteq> '''') currentPlayers
               in updateEnvFile e ''LOL_PLAYERS'' (join '','' cleanedPlayers) st)"

text \<open>The \<open>!add\<close> branch of \<open>messageCreate\<close>: the new state and what was done.\<close>

definition handleAdd :: "env \<Rightarrow> state \<Rightarrow> string \<Rightarrow> state \<times> event list" where
  "handleAdd e st content =
     (let addSummonerRiotID = stringsTrimSpace e (trimPrefix content ''!add '')
      in if addSummonerRiotID = '''' then (st, [Send AddMissingMsg])
         else
           let parts = split CHR ''#'' addSummonerRiotID
           in if length parts \<noteq> 2 \<or> parts ! 0 = '''' \<or> parts ! 1 = '''' then (st, [Send AddFormatMsg])
              else if addSummonerRiotID \<in> set (lolPlayersEnv st)
              then (st, [Send (AlreadyAddedMsg addSummonerRiotID)])
              else
                case getAccountByRiotID e (parts ! 0) (parts ! 1) of
                  Inl err \<Rightarrow>
                    (st, [Call (AccountReq (parts ! 0) (parts ! 1)), Send (VerifyFailedMsg addSummonerRiotID)])
                | Inr account \<Rightarrow>
                    (case addPlayerToEnvFile e addSummonerRiotID st of
                       (Some err, st') \<Rightarrow>
                         (st', [Call (AccountReq (parts ! 0) (parts ! 1)), Send (AddFailedMsg addSummonerRiotID)])
                     | (None, st') \<Rightarrow>
                         (st'\<lparr>lolPlayersEnv := lolPlayersEnv st' @ [addSummonerRiotID]\<rparr>,
                          [Call (AccountReq (parts ! 0) (parts ! 1)), Send (AddedMsg addSummonerRiotID)])))"

section \<open>The \<open>!rank\<close> branch and the dispatch of \<open>messageCreate\<close>\<close>

definition rankStep ::
  "env \<Rightarrow> rankInfo list \<times> event list \<Rightarrow> string \<Rightarrow> rankInfo list \<times> event list" where
  "rankStep e acc rawSummonerName =
     (let (rankInfos, tr) = acc;
          tr = tr @ [Sleep];
          parts = split CHR ''#'' rawSummonerName
      in if length parts \<noteq> 2 then (rankInfos @ [RankFormatInfo rawSummonerName], tr)
         else
           let gameName = parts ! 0; tagLine = parts ! 1;
               tr = tr @ [Call (AccountReq gameName tagLine)]
           in case getAccountByRiotID e gameName tagLine of
                Inl err \<Rightarrow> (rankInfos @ [RankAccountFailedInfo rawSummonerName], tr)
              | Inr account \<Rightarrow>
                  let tr = tr @ [Sleep, Call (SummonerReq (PUUID account))]
                  in case getSummonerByPUUID e (PUUID account) of
                       Inl err \<Rightarrow> (rankInfos @ [RankSummonerFailedInfo rawSummonerName], tr)
                     | Inr summoner \<Rightarrow>
                         let tr = tr @ [Sleep, Call (LeagueReq (ID summoner))]
                         in case getLeagueEntriesBySummonerID e (ID summoner) of
                              Inl err \<Rightarrow> (rankInfos @ [RankLeagueFailedInfo rawSummonerName], tr)
                            | Inr leagueEntries \<Rightarrow>
                                (case find (\<lambda>entry. QueueType entry = ''RANKED_SOLO_5x5'') leagueEntries of
                                   Some entry \<Rightarrow>
                                     (rankInfos @ [RankSoloInfo rawSummonerName (entry_Tier entry)
                                        (entry_Rank entry) (entry_LeaguePoints entry) (Wins entry)
                                        (Losses entry)], tr)
                                 | None \<Rightarrow> (rankInfos @ [RankNoSoloInfo rawSummonerName], tr)))"

definition handleRank :: "env \<Rightarrow> string \<Rightarrow> event list" where
  "handleRank e content =
     (let args = split CHR '' '' content
      in if length args < 2 then [Send RankUsageMsg]
         else
           let summonerNames = tl args;
               (rankInfos, tr) = foldl (rankStep e) ([], []) summonerNames
           in tr @ [Send (RankMsg rankInfos)])"

text \<open>\<open>messageCreate\<close> for a message of another author than the bot itself: the
  branches in the order of the source.\<close>

definition messageCreate :: "env \<Rightarrow> state \<Rightarrow> string \<Rightarrow> state \<times> event list" where
  "messageCreate e st content =
     (if content = ''!ranking'' then (st, handleRanking e st)
      else if hasPrefix content ''!rank'' then (st, handleRank e content)
      else if hasPrefix content ''!add '' then handleAdd e st content
      else if hasPrefix content ''!daystats '' then (st, handleDayStatsCommand e content)
      else if content = ''!help'' then (st, [Send HelpMsg])
      else (st, []))"

section \<open>Notions the claims are stated with\<close>

text \<open>The order the leaderboard is claimed to have: \<open>a\<close> may stand before \<open>b\<close> when
  its tier ordinal is higher, or equal with a higher division ordinal, or both equal with at
  least as many league points.\<close>

definition ordersBefore :: "PlayerRankInfo \<Rightarrow> PlayerRankInfo \<Rightarrow> bool" where
  "ordersBefore a b =
     (TierValue a > TierValue b
      \<or> (TierValue a = TierValue b
          \<and> (RankValue a > RankValue b
              \<or> (RankValue a = RankValue b \<and> LeaguePoints a \<ge> LeaguePoints b))))"

text \<open>What one roster entry contributes to \<open>playerRanks\<close>, and at which step its
  resolution fails.\<close>

definition playerOutcome :: "env \<Rightarrow> string \<Rightarrow> PlayerRankInfo list" where
  "playerOutcome e raw = fst (rankingStep e ([], []) raw)"

definition accountFails :: "env \<Rightarrow> string \<Rightarrow> bool" where
  "accountFails e raw =
     (let parts = split CHR ''#'' raw
      in length parts = 2 \<and> isl (getAccountByRiotID e (parts ! 0) (parts ! 1)))"

definition summonerFails :: "env \<Rightarrow> string \<Rightarrow> bool" where
  "summonerFails e raw =
     (let parts = split CHR ''#'' raw
      in length parts = 2 \<and>
         (case getAccountByRiotID e (parts ! 0) (parts ! 1) of
            Inl err \<Rightarrow> False
          | Inr account \<Rightarrow> isl (getSummonerByPUUID e (PUUID account))))"

definition leagueFails :: "env \<Rightarrow> string \<Rightarrow> bool" where
  "leagueFails e raw =
     (let parts = split CHR ''#'' raw
      in length parts = 2 \<and>
         (case getAccountByRiotID e (parts ! 0) (parts ! 1) of
            Inl err \<Rightarrow> False
          | Inr account \<Rightarrow>
              (case getSummonerByPUUID e (PUUID account) of
                 Inl err \<Rightarrow> False
               | Inr summoner \<Rightarrow> isl (getLeagueEntriesBySummonerID e (ID summoner)))))"

definition fullyResolves :: "env \<Rightarrow> string \<Rightarrow> bool" where
  "fullyResolves e raw =
     (let parts = split CHR ''#'' raw
      in length parts = 2 \<and>
         (case getAccountByRiotID e (parts ! 0) (parts ! 1) of
            Inl err \<Rightarrow> False
          | Inr account \<Rightarrow>
              (case getSummonerByPUUID e (PUUID account) of
                 Inl err \<Rightarrow> False
               | Inr summoner \<Rightarrow> \<not> isl (getLeagueEntriesBySummonerID e (ID summoner)))))"

text \<open>A sample environment: the account \<open>bad\<close> does not resolve, \<open>iron\<close> stands at
  Iron IV with 0 LP, every other player has no ranked-solo entry.\<close>

definition ironIV0 :: LeagueEntryDTO where
  "ironIV0 = \<lparr>QueueType = ''RANKED_SOLO_5x5'', entry_Tier = ''IRON'', entry_Rank = ''IV'',
      entry_LeaguePoints = 0, Wins = 1, Losses = 2\<rparr>"

definition sampleEnv :: env where
  "sampleEnv = \<lparr>
     getAccountByRiotID = (\<lambda>n t. if n = ''bad'' then Inl (ErrOther ''404'')
                                  else Inr \<lparr>PUUID = ''p-'' @ n, GameName = n, TagLine = t\<rparr>),
     getSummonerByPUUID = (\<lambda>p. Inr \<lparr>ID = ''s-'' @ p, summoner_PUUID = p\<rparr>),
     getLeagueEntriesBySummonerID = (\<lambda>i. if i = ''s-p-iron'' then Inr [ironIV0] else Inr []),
     getMatchIDsByPUUIDInTimeRange = (\<lambda>p s e q c. Inr []),
     getMatchDetails = (\<lambda>m. Inl (ErrOther ''404'')),
     sendFails = False, editFails = False, timeNow = 0, readFault = None, writeFault = None,
     unicodeUpper = id, unicodeLower = id, stringsTitle = id, stringsTrimSpace = id,
     urlPathEscape = id\<rparr>"

definition sampleRoster :: "string list" where
  "sampleRoster = [''un#1'', ''bad#2'', ''iron#3'']"

definition pA :: PlayerRankInfo where
  "pA = \<lparr>RiotID = ''a#1'', Tier = ''GOLD'', Rank = ''IV'', LeaguePoints = 50, TierValue = 4, RankValue = 1\<rparr>"
definition pB :: PlayerRankInfo where
  "pB = \<lparr>RiotID = ''b#1'', Tier = ''GOLD'', Rank = ''IV'', LeaguePoints = 50, TierValue = 4, RankValue = 1\<rparr>"
definition pC :: PlayerRankInfo where
  "pC = \<lparr>RiotID = ''c#1'', Tier = ''GOLD'', Rank = ''I'', LeaguePoints = 0, TierValue = 4, RankValue = 4\<rparr>"

text \<open>A match of the window as the tally tests it: created at or after the start and
  before the end, in seconds, in the ranked-solo queue.\<close>

definition inWindowRanked :: "int \<Rightarrow> int \<Rightarrow> MatchDTO \<Rightarrow> bool" where
  "inWindowRanked startTimeUnix endTimeUnix m =
     (startTimeUnix \<le> GameCreation m sdiv 1000 \<and> GameCreation m sdiv 1000 < endTimeUnix
      \<and> QueueID m = 420)"

text \<open>The counters of an accumulator of the tally loop.\<close>

definition counters :: "int \<times> int \<times> event list \<Rightarrow> int \<times> int" where
  "counters acc = (fst acc, fst (snd acc))"

text \<open>A match identifier counts as a win (a loss) of the player when its details can be
  fetched, the match lies in the window and the first participant with the player's
  PUUID has (has not) won.\<close>

definition countsAs :: "bool \<Rightarrow> env \<Rightarrow> string \<Rightarrow> int \<Rightarrow> int \<Rightarrow> string \<Rightarrow> bool" where
  "countsAs won e puuid startTimeUnix endTimeUnix matchID =
     (case getMatchDetails e matchID of
        Inl err \<Rightarrow> False
      | Inr m \<Rightarrow>
          inWindowRanked startTimeUnix endTimeUnix m
          \<and> (case find (\<lambda>p. participant_PUUID p = puuid) (Participants m) of
                None \<Rightarrow> False
              | Some p \<Rightarrow> Win p = won))"

text \<open>Every call of the remote service in a trace comes directly after a sleep of
  \<open>apiRequestDelay\<close>. The flag says whether the event before was a sleep.\<close>

fun delayed :: "bool \<Rightarrow> event list \<Rightarrow> bool" where
  "delayed prev [] = True"
| "delayed prev (Sleep # tr) = delayed True tr"
| "delayed prev (Call r # tr) = (prev \<and> delayed False tr)"
| "delayed prev (Send m # tr) = delayed False tr"
| "delayed prev (Edit m # tr) = delayed False tr"

definition delayedCalls :: "event list \<Rightarrow> bool" where
  "delayedCalls tr = delayed False tr"

text \<open>
  Sample matches of the day 2024-01-01 05:00 to 2024-01-02 05:00 (Unix 1704052800 to
  1704139200) for the player with PUUID \<open>p-un\<close>: \<open>M1\<close> lies in the window but lists only
  another player; \<open>M2\<close> is a win created exactly at the start; \<open>M3\<close> was created exactly at
  the end; \<open>M4\<close> is a loss inside the window; \<open>M5\<close> is a win in another queue; the details
  of \<open>M6\<close> cannot be fetched.
\<close>

definition strayMatch :: MatchDTO where
  "strayMatch = \<lparr>GameCreation = 1704060000000, QueueID = 420,
     Participants = [\<lparr>participant_PUUID = ''p-other'', Win = True\<rparr>]\<rparr>"

definition winAtStart :: MatchDTO where
  "winAtStart = \<lparr>GameCreation = 1704052800000, QueueID = 420,
     Participants = [\<lparr>participant_PUUID = ''p-other'', Win = False\<rparr>,
                     \<lparr>participant_PUUID = ''p-un'', Win = True\<rparr>]\<rparr>"

definition sampleMatch :: "string \<Rightarrow> error + MatchDTO" where
  "sampleMatch matchID =
     (if matchID = ''M1'' then Inr strayMatch
      else if matchID = ''M2'' then Inr winAtStart
      else if matchID = ''M3'' then Inr \<lparr>GameCreation = 1704139200000, QueueID = 420,
          Participants = [\<lparr>participant_PUUID = ''p-un'', Win = True\<rparr>]\<rparr>
      else if matchID = ''M4'' then Inr \<lparr>GameCreation = 1704100000999, QueueID = 420,
          Participants = [\<lparr>participant_PUUID = ''p-un'', Win = False\<rparr>]\<rparr>
      else if matchID = ''M5'' then Inr \<lparr>GameCreation = 1704100000000, QueueID = 440,
          Participants = [\<lparr>participant_PUUID = ''p-un'', Win = True\<rparr>]\<rparr>
      else Inl (ErrOther ''404''))"

definition dayEnv :: env where
  "dayEnv = sampleEnv
     \<lparr>getMatchIDsByPUUIDInTimeRange := (\<lambda>p s e q c. Inr [''M1'', ''M2'', ''M3'', ''M4'', ''M5'', ''M6'']),
      getMatchDetails := sampleMatch\<rparr>"

definition emptyState :: state where
  "emptyState = \<lparr>lolPlayersEnv = [], envFile = None\<rparr>"

text \<open>What one iteration of the \<open>!ranking\<close> loop, and of the \<open>!rank\<close> loop, adds to the
  trace.\<close>

definition stepTrace :: "env \<Rightarrow> string \<Rightarrow> event list" where
  "stepTrace e raw = snd (rankingStep e ([], []) raw)"

definition rankStepTrace :: "env \<Rightarrow> string \<Rightarrow> event list" where
  "rankStepTrace e raw = snd (rankStep e ([], []) raw)"

text \<open>
  The lines of a text file: the pieces between the line feeds, a final line feed being
  the end of the last line and not the start of another one. \<open>dropTrailingEmpty\<close> leaves
  out the empty lines at the end of a list of lines.
\<close>

definition textLines :: "string \<Rightarrow> string list" where
  "textLines s = (let ps = split CHR 0x0A s in if last ps = '''' then butlast ps else ps)"

definition dropTrailingEmpty :: "string list \<Rightarrow> string list" where
  "dropTrailingEmpty ls = rev (dropWhile (\<lambda>l. l = '''') (rev ls))"

text \<open>The players the roster file holds.\<close>

definition filePlayers :: "state \<Rightarrow> string list" where
  "filePlayers st = (case envFile st of None \<Rightarrow> [] | Some input \<Rightarrow> currentPlayersOf input)"

section \<open>Case mapping and rank values\<close>

lemma of_char_upperByte:
  "(of_char (upperByte c) :: nat) =
     (if 97 \<le> (of_char c :: nat) \<and> (of_char c :: nat) \<le> 122 then of_char c - 32 else of_char c)"
  using nat_of_char_less_256[of c] by (auto simp add: upperByte_def Let_def)

lemma of_char_lowerByte:
  "(of_char (lowerByte c) :: nat) =
     (if 65 \<le> (of_char c :: nat) \<and> (of_char c :: nat) \<le> 90 then of_char c + 32 else of_char c)"
  using nat_of_char_less_256[of c] by (auto simp add: lowerByte_def Let_def)

lemma upperByte_lowerByte: "upperByte (lowerByte c) = upperByte c"
proof -
  have "(of_char (upperByte (lowerByte c)) :: nat) = of_char (upperByte c)"
    by (simp add: of_char_upperByte of_char_lowerByte)
  then show ?thesis by (simp only: of_char_eq_iff)
qed

lemma lowerByte_upperByte: "lowerByte (upperByte c) = lowerByte c"
proof -
  have "(of_char (lowerByte (upperByte c)) :: nat) = of_char (lowerByte c)"
    by (auto simp add: of_char_upperByte of_char_lowerByte)
  then show ?thesis by (simp only: of_char_eq_iff)
qed

lemma map_upper_of_lower_eq:
  assumes "map lowerByte s = map lowerByte t"
  shows "map upperByte s = map upperByte t"
proof -
  have "map upperByte (map lowerByte s) = map upperByte (map lowerByte t)"
    using assms by simp
  then show ?thesis by (simp add: upperByte_lowerByte comp_def)
qed

lemma isASCII_map_upperByte: "isASCII s \<Longrightarrow> isASCII (map upperByte s)"
  by (induction s) (auto simp: isASCII_def of_char_upperByte)

lemma ToUpper_sameUpToCase: "sameUpToCase s t \<Longrightarrow> ToUpper uni s = ToUpper uni t"
  using map_upper_of_lower_eq[of s t] by (simp add: sameUpToCase_def ToUpper_def)

lemma sameUpToCase_ToUpper: "isASCII s \<Longrightarrow> sameUpToCase s (ToUpper uni s)"
  by (simp add: sameUpToCase_def ToUpper_def isASCII_map_upperByte lowerByte_upperByte comp_def)

subsection \<open>Rank values\<close>

lemma dom_tierMap: "dom tierMap = set tierVocabulary"
  by (auto simp add: tierVocabulary_def tierMap_def split: if_splits)

lemma dom_rankMap: "dom rankMap = set divisionVocabulary"
  by (auto simp add: divisionVocabulary_def rankMap_def split: if_splits)

lemma mapGet_unknown: "k \<notin> dom m \<Longrightarrow> mapGet m k = 0"
  by (auto simp: mapGet_def split: option.splits)

lemma mapGet_tierMap_range: "0 \<le> mapGet tierMap k \<and> mapGet tierMap k \<le> 10"
  by (simp add: mapGet_def tierMap_def)

lemma mapGet_rankMap_range: "0 \<le> mapGet rankMap k \<and> mapGet rankMap k \<le> 4"
  by (simp add: mapGet_def rankMap_def)

lemma tier_values:
  "map (\<lambda>t. fst (getRankValues uni t r)) tierVocabulary = [0, 1, 2, 3, 4, 5, 6, 7, 8, 9, 10]"
  by (simp add: tierVocabulary_def getRankValues_def ToUpper_def isASCII_def mapGet_def
      tierMap_def upperByte_def)

lemma division_values:
  "map (\<lambda>d. snd (getRankValues uni t d)) divisionVocabulary = [0, 1, 2, 3, 4]"
  by (simp add: divisionVocabulary_def getRankValues_def ToUpper_def isASCII_def mapGet_def
      rankMap_def upperByte_def)

subsection \<open>The ordinal mapping\<close>

text \<open>
  Claim C4. The ordinals of the known tier labels rise strictly from \<open>UNRANKED\<close> (0) to
  \<open>CHALLENGER\<close> (10), those of the divisions from the empty label (0) over IV (1), III (2)
  and II (3) to I (4). Two labels that differ only in the case of their letters have the
  same ordinals. A label whose upper-case form is not a key of the table, in particular an
  ASCII label that is no known label in any spelling, has the ordinal 0: \<open>getRankValues\<close>
  is total and never fails.
\<close>

theorem getRankValues_monotone_case_insensitive_default:
  "map (\<lambda>t. fst (getRankValues uni t r)) tierVocabulary = [0, 1, 2, 3, 4, 5, 6, 7, 8, 9, 10]
   \<and> map (\<lambda>d. snd (getRankValues uni t d)) divisionVocabulary = [0, 1, 2, 3, 4]
   \<and> (sameUpToCase t1 t2 \<and> sameUpToCase r1 r2 \<longrightarrow>
        getRankValues uni t1 r1 = getRankValues uni t2 r2)
   \<and> (ToUpper uni t3 \<notin> set tierVocabulary \<longrightarrow> fst (getRankValues uni t3 r3) = 0)
   \<and> (ToUpper uni r4 \<notin> set divisionVocabulary \<longrightarrow> snd (getRankValues uni t4 r4) = 0)
   \<and> (isASCII t5 \<and> (\<forall>k \<in> set tierVocabulary. \<not> sameUpToCase t5 k) \<longrightarrow>
        fst (getRankValues uni t5 r5) = 0)
   \<and> (isASCII r6 \<and> (\<forall>k \<in> set divisionVocabulary. \<not> sameUpToCase r6 k) \<longrightarrow>
        snd (getRankValues uni t6 r6) = 0)"
proof (intro conjI impI)
  show "map (\<lambda>t. fst (getRankValues uni t r)) tierVocabulary = [0, 1, 2, 3, 4, 5, 6, 7, 8, 9, 10]"
    by (rule tier_values)
  show "map (\<lambda>d. snd (getRankValues uni t d)) divisionVocabulary = [0, 1, 2, 3, 4]"
    by (rule division_values)
  show "getRankValues uni t1 r1 = getRankValues uni t2 r2"
    if "sameUpToCase t1 t2 \<and> sameUpToCase r1 r2"
    using that ToUpper_sameUpToCase[of t1 t2 uni] ToUpper_sameUpToCase[of r1 r2 uni]
    by (simp add: getRankValues_def)
  show "fst (getRankValues uni t3 r3) = 0" if "ToUpper uni t3 \<notin> set tierVocabulary"
    using that by (simp add: getRankValues_def mapGet_unknown dom_tierMap)
  show "snd (getRankValues uni t4 r4) = 0" if "ToUpper uni r4 \<notin> set divisionVocabulary"
    using that by (simp add: getRankValues_def mapGet_unknown dom_rankMap)
  show "fst (getRankValues uni t5 r5) = 0"
    if h: "isASCII t5 \<and> (\<forall>k \<in> set tierVocabulary. \<not> sameUpToCase t5 k)"
  proof -
    have "ToUpper uni t5 \<notin> set tierVocabulary"
      using h sameUpToCase_ToUpper[of t5 uni] by blast
    then show ?thesis by (simp add: getRankValues_def mapGet_unknown dom_tierMap)
  qed
  show "snd (getRankValues uni t6 r6) = 0"
    if h: "isASCII r6 \<and> (\<forall>k \<in> set divisionVocabulary. \<not> sameUpToCase r6 k)"
  proof -
    have "ToUpper uni r6 \<notin> set divisionVocabulary"
      using h sameUpToCase_ToUpper[of r6 uni] by blast
    then show ?thesis by (simp add: getRankValues_def mapGet_unknown dom_rankMap)
  qed
qed

theorem getRankValues_witness:
  "getRankValues id ''gOLd'' ''iv'' = getRankValues id ''Gold'' ''IV''
   \<and> getRankValues id ''Gold'' ''IV'' = (4, 1)
   \<and> fst (getRankValues id ''Wood'' ''IV'') = 0
   \<and> snd (getRankValues id ''Gold'' ''V'') = 0"
proof -
  have h1: "sameUpToCase ''gOLd'' ''Gold'' \<and> sameUpToCase ''iv'' ''IV''" by code_simp
  have h3: "ToUpper id ''Wood'' \<notin> set tierVocabulary" by code_simp
  have h4: "ToUpper id ''V'' \<notin> set divisionVocabulary" by code_simp
  have h5: "isASCII ''Wood'' \<and> (\<forall>k \<in> set tierVocabulary. \<not> sameUpToCase ''Wood'' k)"
    by code_simp
  have h6: "isASCII ''V'' \<and> (\<forall>k \<in> set divisionVocabulary. \<not> sameUpToCase ''V'' k)"
    by code_simp
  have v: "getRankValues id ''Gold'' ''IV'' = (4, 1)" by code_simp
  from getRankValues_monotone_case_insensitive_default
         [of id "''IV''" "''Gold''" "''gOLd''" "''Gold''" "''iv''" "''IV''" "''Wood''" "''IV''"
             "''V''" "''Gold''" "''Wood''" "''IV''" "''V''" "''Gold''"]
       h1 h3 h4 h5 h6 v
  show ?thesis by blast
qed

section \<open>The comparator and the stable sort\<close>

lemma rankLess_sortKey: "rankLess a b \<longleftrightarrow> sortKey b < sortKey a"
  by (auto simp: rankLess_def sortKey_def)

lemma ordersBefore_sortKey: "ordersBefore a b \<longleftrightarrow> sortKey b \<le> sortKey a"
  by (auto simp: ordersBefore_def sortKey_def)

subsection \<open>Insertion sort\<close>

lemma set_bubbleLeft: "set (bubbleLeft lt x ys) = insert x (set ys)"
  by (induction ys) auto

lemma mset_bubbleLeft: "mset (bubbleLeft lt x ys) = add_mset x (mset ys)"
  by (induction ys) auto

lemma sorted_bubbleLeft:
  fixes key :: "'a \<Rightarrow> 'k::linorder"
  assumes lt: "\<And>a b. lt a b \<longleftrightarrow> key b < key a"
    and "sorted_wrt (\<lambda>a b. key a \<le> key b) ys"
  shows "sorted_wrt (\<lambda>a b. key a \<le> key b) (bubbleLeft lt x ys)"
  using assms(2)
proof (induction ys)
  case Nil
  then show ?case by simp
next
  case (Cons y ys)
  show ?case
  proof (cases "lt x y")
    case True
    then have "key y < key x" by (simp add: lt)
    with Cons show ?thesis using True by (auto simp: set_bubbleLeft)
  next
    case False
    then have "key x \<le> key y" by (simp add: lt)
    with Cons.prems show ?thesis using False by auto
  qed
qed

lemma filter_bubbleLeft:
  fixes key :: "'a \<Rightarrow> 'k::linorder"
  assumes lt: "\<And>a b. lt a b \<longleftrightarrow> key b < key a"
  shows "filter (\<lambda>q. key q = k) (bubbleLeft lt x ys) =
           (if key x = k then x # filter (\<lambda>q. key q = k) ys else filter (\<lambda>q. key q = k) ys)"
  by (induction ys) (auto simp: lt)

lemma foldl_bubbleLeft_sorted:
  fixes key :: "'a \<Rightarrow> 'k::linorder"
  assumes lt: "\<And>a b. lt a b \<longleftrightarrow> key b < key a"
    and "sorted_wrt (\<lambda>a b. key a \<le> key b) acc"
  shows "sorted_wrt (\<lambda>a b. key a \<le> key b) (foldl (\<lambda>acc x. bubbleLeft lt x acc) acc xs)"
  using assms(2)
  by (induction xs arbitrary: acc) (simp_all add: sorted_bubbleLeft[where key = key, OF lt])

lemma foldl_bubbleLeft_filter:
  fixes key :: "'a \<Rightarrow> 'k::linorder"
  assumes lt: "\<And>a b. lt a b \<longleftrightarrow> key b < key a"
  shows "filter (\<lambda>q. key q = k) (foldl (\<lambda>acc x. bubbleLeft lt x acc) acc xs) =
           rev (filter (\<lambda>q. key q = k) xs) @ filter (\<lambda>q. key q = k) acc"
  by (induction xs arbitrary: acc) (simp_all add: filter_bubbleLeft[where key = key, OF lt])

lemma foldl_bubbleLeft_mset:
  "mset (foldl (\<lambda>acc x. bubbleLeft lt x acc) acc xs) = mset xs + mset acc"
  by (induction xs arbitrary: acc) (simp_all add: mset_bubbleLeft)

lemma sliceStable_sorted:
  fixes key :: "'a \<Rightarrow> 'k::linorder"
  assumes lt: "\<And>a b. lt a b \<longleftrightarrow> key b < key a"
  shows "sorted_wrt (\<lambda>a b. key b \<le> key a) (sliceStable lt xs)"
proof -
  have "sorted_wrt (\<lambda>a b. key a \<le> key b) (foldl (\<lambda>acc x. bubbleLeft lt x acc) [] xs)"
    by (rule foldl_bubbleLeft_sorted[where key = key, OF lt]) simp
  then show ?thesis by (simp add: sliceStable_def sorted_wrt_rev)
qed

lemma sliceStable_stable:
  fixes key :: "'a \<Rightarrow> 'k::linorder"
  assumes lt: "\<And>a b. lt a b \<longleftrightarrow> key b < key a"
  shows "filter (\<lambda>q. key q = k) (sliceStable lt xs) = filter (\<lambda>q. key q = k) xs"
  by (simp add: sliceStable_def rev_filter[symmetric] foldl_bubbleLeft_filter[where key = key, OF lt])

lemma mset_sliceStable: "mset (sliceStable lt xs) = mset xs"
  by (simp add: sliceStable_def foldl_bubbleLeft_mset)

lemma set_sliceStable: "set (sliceStable lt xs) = set xs"
  using mset_sliceStable[of lt xs] by (metis set_mset_mset)

lemma length_sliceStable: "length (sliceStable lt xs) = length xs"
  using mset_sliceStable[of lt xs] by (metis size_mset)

subsection \<open>The leaderboard order\<close>

text \<open>
  Claim C5. For every input list, sorting with the program's comparator puts the players in
  the order tier ordinal descending, then division ordinal descending, then league points
  descending; the result is a rearrangement of the input; and the sort is stable: the
  players with one and the same triple (tier ordinal, division ordinal, points) stand in the
  output in the order they had in the input.
\<close>

theorem sliceStable_rankLess_sorted_stable:
  "sorted_wrt ordersBefore (sliceStable rankLess xs)
   \<and> mset (sliceStable rankLess xs) = mset xs
   \<and> (\<forall>k. filter (\<lambda>p. (TierValue p, RankValue p, LeaguePoints p) = k) (sliceStable rankLess xs)
          = filter (\<lambda>p. (TierValue p, RankValue p, LeaguePoints p) = k) xs)"
proof (intro conjI allI)
  have "sorted_wrt (\<lambda>a b. sortKey b \<le> sortKey a) (sliceStable rankLess xs)"
    by (rule sliceStable_sorted) (rule rankLess_sortKey)
  then show "sorted_wrt ordersBefore (sliceStable rankLess xs)"
    by (simp add: ordersBefore_sortKey[abs_def])
  show "mset (sliceStable rankLess xs) = mset xs"
    by (rule mset_sliceStable)
  fix k
  have "filter (\<lambda>p. sortKey p = k) (sliceStable rankLess xs) = filter (\<lambda>p. sortKey p = k) xs"
    by (rule sliceStable_stable) (rule rankLess_sortKey)
  then show "filter (\<lambda>p. (TierValue p, RankValue p, LeaguePoints p) = k) (sliceStable rankLess xs)
          = filter (\<lambda>p. (TierValue p, RankValue p, LeaguePoints p) = k) xs"
    by (simp add: sortKey_def)
qed

theorem sliceStable_witness:
  "sliceStable rankLess [pA, pB, pC] = [pC, pA, pB]
   \<and> sorted_wrt ordersBefore [pC, pA, pB]
   \<and> filter (\<lambda>p. (TierValue p, RankValue p, LeaguePoints p) = (4, 1, 50)) [pC, pA, pB] = [pA, pB]"
proof -
  have ev: "sliceStable rankLess [pA, pB, pC] = [pC, pA, pB]"
    by (simp add: sliceStable_def rankLess_def pA_def pB_def pC_def)
  have f: "filter (\<lambda>p. (TierValue p, RankValue p, LeaguePoints p) = (4, 1, 50)) [pA, pB, pC] = [pA, pB]"
    by (simp add: pA_def pB_def pC_def)
  from sliceStable_rankLess_sorted_stable[of "[pA, pB, pC]"] ev f show ?thesis
    by (simp only:) 
qed

section \<open>Leaderboard aggregation\<close>

lemma rankingStep_fst:
  "fst (rankingStep e (ranks, tr) raw) = ranks @ playerOutcome e raw"
  by (simp add: playerOutcome_def rankingStep_def Let_def split: sum.splits option.splits)

lemma foldl_rankingStep_fst:
  "fst (foldl (rankingStep e) (ranks, tr) roster) = ranks @ concat (map (playerOutcome e) roster)"
proof (induction roster arbitrary: ranks tr)
  case Nil
  then show ?case by simp
next
  case (Cons raw roster)
  obtain ranks' tr' where st: "rankingStep e (ranks, tr) raw = (ranks', tr')"
    by (cases "rankingStep e (ranks, tr) raw")
  then have "ranks' = ranks @ playerOutcome e raw"
    using rankingStep_fst[of e ranks tr raw] by simp
  then show ?case using Cons.IH[of ranks' tr'] st by simp
qed

lemma rankingLoop_fst: "fst (rankingLoop e roster) = concat (map (playerOutcome e) roster)"
  using foldl_rankingStep_fst[of e "[]" "[]" roster] by (simp add: rankingLoop_def)

lemma playerOutcome_kinds:
  "playerOutcome e raw = []
   \<or> playerOutcome e raw = [unrankedInfo raw]
   \<or> (\<exists>entry. QueueType entry = ''RANKED_SOLO_5x5'' \<and> playerOutcome e raw = [rankedInfo e raw entry])"
  by (auto simp add: playerOutcome_def rankingStep_def Let_def find_Some_iff
      split: sum.splits option.splits)

lemma playerOutcome_failure:
  "accountFails e raw \<or> summonerFails e raw \<or> leagueFails e raw \<Longrightarrow> playerOutcome e raw = []"
  by (auto simp add: playerOutcome_def rankingStep_def accountFails_def summonerFails_def
      leagueFails_def Let_def split: sum.splits option.splits)

lemma playerOutcome_not_resolved: "\<not> fullyResolves e raw \<Longrightarrow> playerOutcome e raw = []"
  by (auto simp add: playerOutcome_def rankingStep_def fullyResolves_def Let_def
      split: sum.splits option.splits)

lemma playerOutcome_resolved:
  "fullyResolves e raw \<Longrightarrow> \<exists>p. playerOutcome e raw = [p] \<and> RiotID p = raw"
  by (auto simp add: playerOutcome_def rankingStep_def fullyResolves_def Let_def rankedInfo_def
      unrankedInfo_def split: sum.splits option.splits prod.splits)

lemma length_concat_outcomes:
  "length (concat (map (playerOutcome e) roster)) = length (filter (fullyResolves e) roster)"
proof (induction roster)
  case Nil
  then show ?case by simp
next
  case (Cons raw roster)
  show ?case
  proof (cases "fullyResolves e raw")
    case True
    then obtain p where "playerOutcome e raw = [p]" using playerOutcome_resolved by blast
    with True Cons show ?thesis by simp
  next
    case False
    then show ?thesis using Cons playerOutcome_not_resolved by simp
  qed
qed

lemma length_sortedRanks:
  "length (sortedRanks e roster) = length (filter (fullyResolves e) roster)"
  by (simp add: sortedRanks_def length_sliceStable rankingLoop_fst length_concat_outcomes)

lemma length_rankedMessages: "length (rankedMessages e prs) = Suc (length prs)"
  by (simp add: rankedMessages_def)

lemma set_sortedRanks:
  "p \<in> set (sortedRanks e roster) \<Longrightarrow>
     (\<exists>u. p = unrankedInfo u)
     \<or> (\<exists>r entry. QueueType entry = ''RANKED_SOLO_5x5'' \<and> p = rankedInfo e r entry)"
proof -
  assume "p \<in> set (sortedRanks e roster)"
  then obtain raw where mem: "p \<in> set (playerOutcome e raw)"
    by (auto simp: sortedRanks_def set_sliceStable rankingLoop_fst)
  from playerOutcome_kinds[of e raw] consider
    "playerOutcome e raw = []" | "playerOutcome e raw = [unrankedInfo raw]"
    | entry where "QueueType entry = ''RANKED_SOLO_5x5''" "playerOutcome e raw = [rankedInfo e raw entry]"
    by blast
  then show ?thesis
  proof cases
    case 1
    with mem show ?thesis by simp
  next
    case 2
    with mem have "p = unrankedInfo raw" by simp
    then show ?thesis by blast
  next
    case 3
    with mem have "p = rankedInfo e raw entry" by simp
    with 3 show ?thesis by blast
  qed
qed

lemma TierValue_rankedInfo: "0 \<le> TierValue (rankedInfo e r entry)"
  using mapGet_tierMap_range by (simp add: rankedInfo_def getRankValues_def)

lemma unranked_key_less: "sortKey (unrankedInfo u) < sortKey (rankedInfo e r entry)"
  using TierValue_rankedInfo[of e r entry] by (simp add: sortKey_def unrankedInfo_def)

lemma sample_sorted:
  "sortedRanks sampleEnv sampleRoster = [rankedInfo sampleEnv ''iron#3'' ironIV0, unrankedInfo ''un#1'']"
  by code_simp

subsection \<open>Unranked players come last\<close>

text \<open>
  Claim C1. The sort key of a player synthesized as unranked is strictly less than the key
  of every player built from a ranked-solo league entry, whatever tier, division and points
  the entry carries (Iron IV with 0 LP among them), and the comparator puts the ranked
  player first. Every element of the sorted leaderboard is of one of the two kinds, and no
  unranked player stands before a ranked one: if position \<open>i\<close> holds an unranked player and
  position \<open>j\<close> a ranked one, then \<open>j < i\<close>.
\<close>

theorem unranked_sorts_after_ranked:
  "sortKey (unrankedInfo u) < sortKey (rankedInfo e r entry)
   \<and> rankLess (rankedInfo e r entry) (unrankedInfo u)
   \<and> \<not> rankLess (unrankedInfo u) (rankedInfo e r entry)
   \<and> (\<forall>p \<in> set (sortedRanks e roster).
         (\<exists>u. p = unrankedInfo u)
         \<or> (\<exists>r entry. QueueType entry = ''RANKED_SOLO_5x5'' \<and> p = rankedInfo e r entry))
   \<and> (i < length (sortedRanks e roster) \<and> j < length (sortedRanks e roster)
        \<and> sortedRanks e roster ! i = unrankedInfo u'
        \<and> sortedRanks e roster ! j = rankedInfo e r' entry' \<longrightarrow> j < i)"
proof (intro conjI ballI impI)
  show "sortKey (unrankedInfo u) < sortKey (rankedInfo e r entry)"
    by (rule unranked_key_less)
  then show "rankLess (rankedInfo e r entry) (unrankedInfo u)"
    by (simp add: rankLess_sortKey)
  show "\<not> rankLess (unrankedInfo u) (rankedInfo e r entry)"
    using unranked_key_less[of u e r entry] by (simp add: rankLess_sortKey)
  show "(\<exists>u. p = unrankedInfo u)
         \<or> (\<exists>r entry. QueueType entry = ''RANKED_SOLO_5x5'' \<and> p = rankedInfo e r entry)"
    if "p \<in> set (sortedRanks e roster)" for p
    using that by (rule set_sortedRanks)
  show "j < i"
    if h: "i < length (sortedRanks e roster) \<and> j < length (sortedRanks e roster)
        \<and> sortedRanks e roster ! i = unrankedInfo u'
        \<and> sortedRanks e roster ! j = rankedInfo e r' entry'"
  proof (rule ccontr)
    assume "\<not> j < i"
    then have "i \<le> j" by simp
    have srt: "sorted_wrt (\<lambda>a b. sortKey b \<le> sortKey a) (sortedRanks e roster)"
      unfolding sortedRanks_def by (rule sliceStable_sorted) (rule rankLess_sortKey)
    have lt: "sortKey (unrankedInfo u') < sortKey (rankedInfo e r' entry')"
      by (rule unranked_key_less)
    show False
    proof (cases "i = j")
      case True
      with h have "unrankedInfo u' = rankedInfo e r' entry'" by metis
      then have "sortKey (unrankedInfo u') = sortKey (rankedInfo e r' entry')" by (rule arg_cong)
      with lt show False by simp
    next
      case False
      with \<open>i \<le> j\<close> have "i < j" by simp
      moreover have "j < length (sortedRanks e roster)" using h by simp
      ultimately have "sortKey (sortedRanks e roster ! j) \<le> sortKey (sortedRanks e roster ! i)"
        by (rule sorted_wrt_nth_less[OF srt])
      moreover have "sortedRanks e roster ! i = unrankedInfo u'"
        and "sortedRanks e roster ! j = rankedInfo e r' entry'" using h by simp_all
      ultimately have "sortKey (rankedInfo e r' entry') \<le> sortKey (unrankedInfo u')"
        by (simp only:)
      with lt show False by simp
    qed
  qed
qed

theorem unranked_sorts_after_ranked_witness:
  "sortKey (unrankedInfo ''un#1'') < sortKey (rankedInfo sampleEnv ''iron#3'' ironIV0)
   \<and> sortedRanks sampleEnv sampleRoster ! 1 = unrankedInfo ''un#1''
   \<and> sortedRanks sampleEnv sampleRoster ! 0 = rankedInfo sampleEnv ''iron#3'' ironIV0
   \<and> (0::nat) < 1"
proof -
  have h: "1 < length (sortedRanks sampleEnv sampleRoster) \<and> 0 < length (sortedRanks sampleEnv sampleRoster)
        \<and> sortedRanks sampleEnv sampleRoster ! 1 = unrankedInfo ''un#1''
        \<and> sortedRanks sampleEnv sampleRoster ! 0 = rankedInfo sampleEnv ''iron#3'' ironIV0"
    by (simp add: sample_sorted)
  from unranked_sorts_after_ranked[where u = "''un#1''" and e = sampleEnv and r = "''iron#3''"
        and entry = ironIV0 and roster = sampleRoster and i = 1 and j = 0 and u' = "''un#1''"
        and r' = "''iron#3''" and entry' = ironIV0] h
  show ?thesis by blast
qed

subsection \<open>A failing player does not stop the batch\<close>

text \<open>
  Claim C6. The loop over the roster collects, for every roster entry in turn, what that entry
  alone contributes: nothing when its Account, Summoner or LeagueEntry resolution fails, one
  player when all three succeed. The rendered message has the title line and one line for
  each entry that resolved. In particular a roster of three entries, one of which fails
  Account resolution while the other two resolve, is rendered as the title and exactly two
  player lines, and that message is what the handler delivers.
\<close>

theorem ranking_partial_failure:
  "fst (rankingLoop e roster) = concat (map (playerOutcome e) roster)
   \<and> (accountFails e raw \<or> summonerFails e raw \<or> leagueFails e raw \<longrightarrow> playerOutcome e raw = [])
   \<and> (fullyResolves e raw' \<longrightarrow> (\<exists>p. playerOutcome e raw' = [p] \<and> RiotID p = raw'))
   \<and> length (rankedMessages e (sortedRanks e roster)) = 1 + length (filter (fullyResolves e) roster)
   \<and> (length trio = 3 \<and> length (filter (accountFails e) trio) = 1
        \<and> length (filter (fullyResolves e) trio) = 2 \<longrightarrow>
        (\<exists>l1 l2. rankedMessages e (sortedRanks e trio) = [TitleLine, l1, l2]
           \<and> handleRanking e \<lparr>lolPlayersEnv = trio, envFile = f\<rparr> =
               [Send RankingProcessingMsg] @ snd (rankingLoop e trio)
               @ deliver e (RankingMsg [TitleLine, l1, l2])))"
proof (intro conjI impI)
  show "fst (rankingLoop e roster) = concat (map (playerOutcome e) roster)"
    by (rule rankingLoop_fst)
  show "playerOutcome e raw = []"
    if "accountFails e raw \<or> summonerFails e raw \<or> leagueFails e raw"
    using that by (rule playerOutcome_failure)
  show "\<exists>p. playerOutcome e raw' = [p] \<and> RiotID p = raw'" if "fullyResolves e raw'"
    using that by (rule playerOutcome_resolved)
  show "length (rankedMessages e (sortedRanks e roster)) = 1 + length (filter (fullyResolves e) roster)"
    by (simp add: length_rankedMessages length_sortedRanks)
  show "\<exists>l1 l2. rankedMessages e (sortedRanks e trio) = [TitleLine, l1, l2]
           \<and> handleRanking e \<lparr>lolPlayersEnv = trio, envFile = f\<rparr> =
               [Send RankingProcessingMsg] @ snd (rankingLoop e trio)
               @ deliver e (RankingMsg [TitleLine, l1, l2])"
    if h: "length trio = 3 \<and> length (filter (accountFails e) trio) = 1
        \<and> length (filter (fullyResolves e) trio) = 2"
  proof -
    have len: "length (sortedRanks e trio) = 2"
      using h by (simp add: length_sortedRanks)
    then obtain p1 p2 where ps: "sortedRanks e trio = [p1, p2]"
      by (cases "sortedRanks e trio"; cases "tl (sortedRanks e trio)") auto
    have rm: "rankedMessages e (sortedRanks e trio) = [TitleLine, renderLine e 0 p1, renderLine e 1 p2]"
      by (simp add: ps rankedMessages_def)
    have ne: "trio \<noteq> []" using h by auto
    have "handleRanking e \<lparr>lolPlayersEnv = trio, envFile = f\<rparr> =
               [Send RankingProcessingMsg] @ snd (rankingLoop e trio)
               @ deliver e (RankingMsg (rankedMessages e (sortedRanks e trio)))"
      using ne len by (auto simp add: handleRanking_def sortedRanks_def Let_def split: prod.splits)
    with rm show ?thesis by simp
  qed
qed

theorem ranking_partial_failure_witness:
  "length sampleRoster = 3
   \<and> filter (accountFails sampleEnv) sampleRoster = [''bad#2'']
   \<and> filter (fullyResolves sampleEnv) sampleRoster = [''un#1'', ''iron#3'']
   \<and> playerOutcome sampleEnv ''bad#2'' = []
   \<and> length (rankedMessages sampleEnv (sortedRanks sampleEnv sampleRoster)) = 3"
proof -
  have h1: "length sampleRoster = 3" by code_simp
  have h2: "filter (accountFails sampleEnv) sampleRoster = [''bad#2'']" by code_simp
  have h3: "filter (fullyResolves sampleEnv) sampleRoster = [''un#1'', ''iron#3'']" by code_simp
  have h4: "accountFails sampleEnv ''bad#2''" by code_simp
  have h5: "fullyResolves sampleEnv ''un#1''" by code_simp
  from ranking_partial_failure[where e = sampleEnv and roster = sampleRoster and raw = "''bad#2''"
         and raw' = "''un#1''" and trio = sampleRoster and f = None] h1 h2 h3 h4 h5
  show ?thesis by simp
qed

section \<open>Calendar arithmetic\<close>

text \<open>The day count of \<open>time.Date\<close> undoes the decomposition of \<open>absDate\<close>: a day
  number split into cycles, year, month and day and put together again is the same day.\<close>

lemma cycle100:
  fixes r :: int
  assumes "0 \<le> r" "r < 146097"
  defines "n \<equiv> r div 36524 - (r div 36524) div 4"
  shows "0 \<le> n \<and> n \<le> 3 \<and> 0 \<le> r - 36524 * n \<and> r - 36524 * n \<le> 36524
         \<and> (r - 36524 * n = 36524 \<longrightarrow> n = 3)"
proof -
  define q where "q = r div 36524"
  define s where "s = r mod 36524"
  have r: "r = 36524 * q + s" by (simp add: q_def s_def)
  have s: "0 \<le> s" "s < 36524" by (simp_all add: s_def)
  have n: "n = q - q div 4" by (simp add: n_def q_def)
  from r s assms(1,2) have "0 \<le> q" "q \<le> 4" by linarith+
  then consider "q = 0" | "q = 1" | "q = 2" | "q = 3" | "q = 4" by linarith
  then show ?thesis
  proof cases
    case 1 with n have "n = 0" by simp
    with 1 r s show ?thesis by simp
  next
    case 2 with n have "n = 1" by simp
    with 2 r s show ?thesis by simp
  next
    case 3 with n have "n = 2" by simp
    with 3 r s show ?thesis by simp
  next
    case 4 with n have "n = 3" by simp
    with 4 r s show ?thesis by simp
  next
    case 5 with n have "n = 3" by simp
    with 5 r s assms(2) show ?thesis by simp
  qed
qed

lemma cycle4:
  fixes r :: int
  assumes "0 \<le> r" "r \<le> 36524"
  defines "c \<equiv> r div 1461"
  shows "0 \<le> c \<and> c \<le> 24 \<and> 0 \<le> r - 1461 * c \<and> r - 1461 * c \<le> 1460
         \<and> (c = 24 \<and> r - 1461 * c = 1460 \<longrightarrow> r = 36524)"
proof -
  define s where "s = r mod 1461"
  have r: "r = 1461 * c + s" by (simp add: c_def s_def)
  have s: "0 \<le> s" "s < 1461" by (simp_all add: s_def)
  from r s assms(1,2) have "0 \<le> c" "c \<le> 24" by linarith+
  with r s show ?thesis by linarith
qed

lemma cycle1:
  fixes r :: int
  assumes "0 \<le> r" "r \<le> 1460"
  defines "n \<equiv> r div 365 - (r div 365) div 4"
  shows "0 \<le> n \<and> n \<le> 3 \<and> 0 \<le> r - 365 * n \<and> r - 365 * n \<le> 365
         \<and> (r - 365 * n = 365 \<longrightarrow> n = 3 \<and> r = 1460)"
proof -
  define q where "q = r div 365"
  define s where "s = r mod 365"
  have r: "r = 365 * q + s" by (simp add: q_def s_def)
  have s: "0 \<le> s" "s < 365" by (simp_all add: s_def)
  have n: "n = q - q div 4" by (simp add: n_def q_def)
  from r s assms(1,2) have "0 \<le> q" "q \<le> 4" by linarith+
  then consider "q = 0" | "q = 1" | "q = 2" | "q = 3" | "q = 4" by linarith
  then show ?thesis
  proof cases
    case 1 with n have "n = 0" by simp
    with 1 r s show ?thesis by simp
  next
    case 2 with n have "n = 1" by simp
    with 2 r s show ?thesis by simp
  next
    case 3 with n have "n = 2" by simp
    with 3 r s show ?thesis by simp
  next
    case 4 with n have "n = 3" by simp
    with 4 r s show ?thesis by simp
  next
    case 5 with n have "n = 3" by simp
    with 5 r s assms(2) show ?thesis by simp
  qed
qed

lemma daysSinceEpoch_decomp:
  assumes "0 \<le> b" "b \<le> 3" "0 \<le> c" "c \<le> 24" "0 \<le> e" "e \<le> 3"
  shows "daysSinceEpoch (400 * a + 100 * b + 4 * c + e + 1) = 146097 * a + 36524 * b + 1461 * c + 365 * e"
proof -
  define y where "y = 400 * a + 100 * b + 4 * c + e"
  have h1: "y div 400 = a"
    by (rule int_div_pos_eq[where r = "100 * b + 4 * c + e"]) (use assms in \<open>simp_all add: y_def\<close>)
  have h2: "(y - 400 * a) div 100 = b"
    by (rule int_div_pos_eq[where r = "4 * c + e"]) (use assms in \<open>simp_all add: y_def\<close>)
  have h3: "(y - 400 * a - 100 * b) div 4 = c"
    by (rule int_div_pos_eq[where r = "e"]) (use assms in \<open>simp_all add: y_def\<close>)
  have "daysSinceEpoch (y + 1) =
          daysPer400Years * a + daysPer100Years * b + daysPer4Years * c
          + 365 * (y - 400 * a - 100 * b - 4 * c)"
    unfolding daysSinceEpoch_def Let_def by (simp only: add_diff_cancel_right' h1 h2 h3)
  then show ?thesis
    by (simp add: y_def daysPer400Years_def daysPer100Years_def daysPer4Years_def)
qed

lemma isLeap_decomp:
  assumes "0 \<le> b" "b \<le> 3" "0 \<le> c" "c \<le> 24" "0 \<le> e" "e \<le> 3"
  shows "isLeap (400 * a + 100 * b + 4 * c + e + 1) \<longleftrightarrow> (e = 3 \<and> (c \<noteq> 24 \<or> b = 3))"
proof -
  define y where "y = 400 * a + 100 * b + 4 * c + e + 1"
  have m4: "y mod 4 = (e + 1) mod 4"
  proof -
    have "y = (e + 1) + (100 * a + 25 * b + c) * 4" by (simp add: y_def)
    then show ?thesis by (simp only: mod_mult_self1)
  qed
  have m100: "y mod 100 = (4 * c + e + 1) mod 100"
  proof -
    have "y = (4 * c + e + 1) + (4 * a + b) * 100" by (simp add: y_def)
    then show ?thesis by (simp only: mod_mult_self1)
  qed
  have m400: "y mod 400 = (100 * b + 4 * c + e + 1) mod 400"
  proof -
    have "y = (100 * b + 4 * c + e + 1) + a * 400" by (simp add: y_def)
    then show ?thesis by (simp only: mod_mult_self1)
  qed
  have 1: "y mod 4 = 0 \<longleftrightarrow> e = 3"
  proof -
    from assms consider "e = 0" | "e = 1" | "e = 2" | "e = 3" by linarith
    then show ?thesis unfolding m4 by cases simp_all
  qed
  have 2: "y mod 100 = 0 \<longleftrightarrow> (c = 24 \<and> e = 3)"
  proof (cases "4 * c + e + 1 < 100")
    case True
    then have "(4 * c + e + 1) mod 100 = 4 * c + e + 1" using assms by simp
    with True show ?thesis unfolding m100 using assms by linarith
  next
    case False
    with assms have "c = 24 \<and> e = 3" by linarith
    then show ?thesis unfolding m100 by simp
  qed
  have 3: "y mod 400 = 0 \<longleftrightarrow> (b = 3 \<and> c = 24 \<and> e = 3)"
  proof (cases "100 * b + 4 * c + e + 1 < 400")
    case True
    then have "(100 * b + 4 * c + e + 1) mod 400 = 100 * b + 4 * c + e + 1" using assms by simp
    with True show ?thesis unfolding m400 using assms by linarith
  next
    case False
    with assms have "b = 3 \<and> c = 24 \<and> e = 3" by linarith
    then show ?thesis unfolding m400 by simp
  qed
  show ?thesis unfolding y_def[symmetric] isLeap_def 1 2 3 by blast
qed

lemma absDate_days:
  assumes "absDate a = (year, yday)"
  shows "daysSinceEpoch year + yday = a div secondsPerDay
         \<and> 0 \<le> yday \<and> (yday \<le> 364 \<or> (yday = 365 \<and> isLeap year))"
proof -
  define D where "D = a div secondsPerDay"
  define q where "q = D div 146097"
  define r0 where "r0 = D - 146097 * q"
  define b where "b = r0 div 36524 - (r0 div 36524) div 4"
  define r1 where "r1 = r0 - 36524 * b"
  define c where "c = r1 div 1461"
  define r2 where "r2 = r1 - 1461 * c"
  define e where "e = r2 div 365 - (r2 div 365) div 4"
  define r3 where "r3 = r2 - 365 * e"
  have r0_mod: "r0 = D mod 146097"
    by (simp add: r0_def q_def minus_mult_div_eq_mod)
  then have r0: "0 \<le> r0" "r0 < 146097" by simp_all
  from cycle100[OF r0] have B: "0 \<le> b" "b \<le> 3" "0 \<le> r1" "r1 \<le> 36524" "r1 = 36524 \<longrightarrow> b = 3"
    unfolding b_def[symmetric] r1_def[symmetric] by simp_all
  from cycle4[OF B(3,4)] have C: "0 \<le> c" "c \<le> 24" "0 \<le> r2" "r2 \<le> 1460"
    "c = 24 \<and> r2 = 1460 \<longrightarrow> r1 = 36524"
    unfolding c_def[symmetric] r2_def[symmetric] by simp_all
  from cycle1[OF C(3,4)] have E: "0 \<le> e" "e \<le> 3" "0 \<le> r3" "r3 \<le> 365"
    "r3 = 365 \<longrightarrow> e = 3 \<and> r2 = 1460"
    unfolding e_def[symmetric] r3_def[symmetric] by simp_all
  have "absDate a = (400 * q + 100 * b + 4 * c + e + 1, r3)"
    unfolding absDate_def Let_def daysPer400Years_def daysPer100Years_def daysPer4Years_def
    by (simp add: D_def[symmetric] q_def[symmetric] r0_def[symmetric] b_def[symmetric]
        r1_def[symmetric] c_def[symmetric] r2_def[symmetric] e_def[symmetric] r3_def[symmetric])
  with assms have year: "year = 400 * q + 100 * b + 4 * c + e + 1" and yday: "yday = r3" by simp_all
  have dse: "daysSinceEpoch year = 146097 * q + 36524 * b + 1461 * c + 365 * e"
    unfolding year using B(1,2) C(1,2) E(1,2) by (rule daysSinceEpoch_decomp)
  have leap: "isLeap year \<longleftrightarrow> (e = 3 \<and> (c \<noteq> 24 \<or> b = 3))"
    unfolding year using B(1,2) C(1,2) E(1,2) by (rule isLeap_decomp)
  have 1: "daysSinceEpoch year + yday = D"
    unfolding dse yday r3_def r2_def r1_def r0_def by simp
  have 2: "yday \<le> 364 \<or> (yday = 365 \<and> isLeap year)"
  proof (cases "yday = 365")
    case True
    with E(5) yday have "e = 3" "r2 = 1460" by simp_all
    with C(5) B(5) have "c \<noteq> 24 \<or> b = 3" by blast
    with \<open>e = 3\<close> leap True show ?thesis by simp
  next
    case False
    with E(4) yday show ?thesis by simp
  qed
  from 1 2 E(3) yday show ?thesis by (simp add: D_def)
qed

lemma month_lookup:
  fixes day :: int
  assumes "0 \<le> day" "day \<le> 364"
  defines "month \<equiv> day div 31"
  defines "end \<equiv> daysBefore ! nat (month + 1)"
  defines "m \<equiv> (if day \<ge> end then month + 2 else month + 1)"
  defines "d \<equiv> (if day \<ge> end then day - end + 1 else day - daysBefore ! nat month + 1)"
  shows "1 \<le> m \<and> m \<le> 12 \<and> 1 \<le> d \<and> daysBefore ! nat (m - 1) + (d - 1) = day
         \<and> (3 \<le> m \<longleftrightarrow> 59 \<le> day)"
proof -
  define s where "s = day mod 31"
  have day: "day = 31 * month + s" by (simp add: month_def s_def)
  have s: "0 \<le> s" "s < 31" by (simp_all add: s_def)
  from day s assms(1,2) have mb: "0 \<le> month" "month \<le> 11" by linarith+
  then have "month \<le> 5 \<or> 6 \<le> month" by linarith
  then have "(month = 0 \<or> month = 1 \<or> month = 2 \<or> month = 3 \<or> month = 4 \<or> month = 5)
       \<or> (month = 6 \<or> month = 7 \<or> month = 8 \<or> month = 9 \<or> month = 10 \<or> month = 11)"
  proof
    assume "month \<le> 5"
    with mb have "month = 0 \<or> month = 1 \<or> month = 2 \<or> month = 3 \<or> month = 4 \<or> month = 5"
      by linarith
    then show ?thesis ..
  next
    assume "6 \<le> month"
    with mb have "month = 6 \<or> month = 7 \<or> month = 8 \<or> month = 9 \<or> month = 10 \<or> month = 11"
      by linarith
    then show ?thesis ..
  qed
  then consider "month = 0" | "month = 1" | "month = 2" | "month = 3" | "month = 4" | "month = 5"
    | "month = 6" | "month = 7" | "month = 8" | "month = 9" | "month = 10" | "month = 11"
    by blast
  then show ?thesis
  proof cases
    case 1 with day s assms(2) show ?thesis unfolding m_def d_def end_def by (simp add: daysBefore_def)
  next
    case 2 with day s assms(2) show ?thesis unfolding m_def d_def end_def by (simp add: daysBefore_def)
  next
    case 3 with day s assms(2) show ?thesis unfolding m_def d_def end_def by (simp add: daysBefore_def)
  next
    case 4 with day s assms(2) show ?thesis unfolding m_def d_def end_def by (simp add: daysBefore_def)
  next
    case 5 with day s assms(2) show ?thesis unfolding m_def d_def end_def by (simp add: daysBefore_def)
  next
    case 6 with day s assms(2) show ?thesis unfolding m_def d_def end_def by (simp add: daysBefore_def)
  next
    case 7 with day s assms(2) show ?thesis unfolding m_def d_def end_def by (simp add: daysBefore_def)
  next
    case 8 with day s assms(2) show ?thesis unfolding m_def d_def end_def by (simp add: daysBefore_def)
  next
    case 9 with day s assms(2) show ?thesis unfolding m_def d_def end_def by (simp add: daysBefore_def)
  next
    case 10 with day s assms(2) show ?thesis unfolding m_def d_def end_def by (simp add: daysBefore_def)
  next
    case 11 with day s assms(2) show ?thesis unfolding m_def d_def end_def by (simp add: daysBefore_def)
  next
    case 12 with day s assms(2) show ?thesis unfolding m_def d_def end_def by (simp add: daysBefore_def)
  qed
qed

lemma monthDay_days:
  assumes "0 \<le> yday" "yday \<le> 364 \<or> (yday = 365 \<and> isLeap year)"
    and "monthDay year yday = (m, d)"
  shows "1 \<le> m \<and> m \<le> 12 \<and> 1 \<le> d
         \<and> daysBefore ! nat (m - 1) + (if isLeap year \<and> 3 \<le> m then 1 else 0) + (d - 1) = yday"
proof (cases "isLeap year \<and> yday = 31 + 29 - 1")
  case True
  with assms(3) have "m = 2" "d = 29" by (simp_all add: monthDay_def)
  with True show ?thesis by (simp add: daysBefore_def)
next
  case False
  define day where "day = (if isLeap year \<and> yday > 31 + 29 - 1 then yday - 1 else yday)"
  have bounds: "0 \<le> day" "day \<le> 364" using assms(1,2) by (auto simp: day_def)
  from False have F0: "(isLeap year \<and> yday = 31 + 29 - 1) = False" by blast
  have "monthDay year yday =
          (if day \<ge> daysBefore ! nat (day div 31 + 1)
           then (day div 31 + 2, day - daysBefore ! nat (day div 31 + 1) + 1)
           else (day div 31 + 1, day - daysBefore ! nat (day div 31) + 1))"
    by (simp only: monthDay_def Let_def F0 if_False day_def[symmetric])
  with assms(3)
  have md: "(m, d) = (if day \<ge> daysBefore ! nat (day div 31 + 1)
                      then (day div 31 + 2, day - daysBefore ! nat (day div 31 + 1) + 1)
                      else (day div 31 + 1, day - daysBefore ! nat (day div 31) + 1))"
    by simp
  from month_lookup[OF bounds] md
  have L: "1 \<le> m" "m \<le> 12" "1 \<le> d" "daysBefore ! nat (m - 1) + (d - 1) = day" "3 \<le> m \<longleftrightarrow> 59 \<le> day"
    by (auto split: if_splits)
  show ?thesis
  proof (cases "isLeap year \<and> yday > 59")
    case True
    then have "day = yday - 1" by (simp add: day_def)
    with L True show ?thesis by auto
  next
    case F: False
    then have dy: "day = yday" by (simp add: day_def)
    show ?thesis
    proof (cases "isLeap year")
      case True
      with F False have "yday < 59" by simp
      with L dy True show ?thesis by auto
    next
      case False
      with L dy show ?thesis by simp
    qed
  qed
qed

lemma timeDate_timeYMD:
  assumes "timeYMD t = (y, m, d)"
  shows "timeDate y m (d + k) h mi s =
           (absSec t div secondsPerDay + k) * secondsPerDay + h * 3600 + mi * 60 + s
             - unixToInternal - jstOffset"
proof -
  obtain year yday where ad: "absDate (absSec t) = (year, yday)" by (cases "absDate (absSec t)")
  obtain m' d' where md: "monthDay year yday = (m', d')" by (cases "monthDay year yday")
  from assms ad md have eq: "y = year" "m = m'" "d = d'" by (simp_all add: timeYMD_def)
  from absDate_days[OF ad] have A: "daysSinceEpoch year + yday = absSec t div secondsPerDay"
    "0 \<le> yday" "yday \<le> 364 \<or> (yday = 365 \<and> isLeap year)" by simp_all
  from monthDay_days[OF A(2,3) md] have M: "1 \<le> m'" "m' \<le> 12"
    "daysBefore ! nat (m' - 1) + (if isLeap year \<and> 3 \<le> m' then 1 else 0) + (d' - 1) = yday"
    by simp_all
  have dv: "(m' - 1) div 12 = 0" and md': "(m' - 1) mod 12 = m' - 1" using M(1,2) by simp_all
  have "timeDate year m' (d' + k) h mi s =
          (daysSinceEpoch year + daysBefore ! nat (m' - 1)
             + (if isLeap year \<and> 3 \<le> m' then 1 else 0) + (d' + k - 1)) * secondsPerDay
           + h * 3600 + mi * 60 + s - unixToInternal - jstOffset"
    unfolding timeDate_def Let_def dv md' by simp
  also have "daysSinceEpoch year + daysBefore ! nat (m' - 1)
             + (if isLeap year \<and> 3 \<le> m' then 1 else 0) + (d' + k - 1)
           = absSec t div secondsPerDay + k"
    using A(1) M(3) by linarith
  finally show ?thesis unfolding eq .
qed

section \<open>The day window\<close>

lemma timeClock_sum:
  assumes "timeClock t = (h, mi, s)"
  shows "h * 3600 + mi * 60 + s = absSec t mod secondsPerDay"
proof -
  define x where "x = absSec t mod secondsPerDay"
  have h: "h = x div 3600" and mi: "mi = (x mod 3600) div 60" and s: "s = x mod 60"
    using assms by (simp_all add: timeClock_def Let_def x_def)
  have "x mod 60 = (x mod 3600) mod 60"
    by (simp add: mod_mod_cancel)
  then have "mi * 60 + s = x mod 3600"
    unfolding mi s by simp
  moreover have "x div 3600 * 3600 + x mod 3600 = x" by simp
  ultimately show ?thesis unfolding h x_def[symmetric] by linarith
qed

lemma AddDate_days: "AddDate t 0 0 k = t + k * secondsPerDay"
proof -
  obtain y m d where ymd: "timeYMD t = (y, m, d)" by (cases "timeYMD t") auto
  obtain h mi s where cl: "timeClock t = (h, mi, s)" by (cases "timeClock t") auto
  have "AddDate t 0 0 k = timeDate y m (d + k) h mi s"
    by (simp add: AddDate_def ymd cl)
  also have "\<dots> = (absSec t div secondsPerDay + k) * secondsPerDay + h * 3600 + mi * 60 + s
             - unixToInternal - jstOffset"
    by (rule timeDate_timeYMD[OF ymd])
  also have "\<dots> = absSec t + k * secondsPerDay - unixToInternal - jstOffset"
  proof -
    define D where "D = absSec t div secondsPerDay"
    define R where "R = absSec t mod secondsPerDay"
    have "D * 86400 + R = absSec t" by (simp add: D_def R_def secondsPerDay_def)
    moreover have "h * 3600 + mi * 60 + s = R" using timeClock_sum[OF cl] by (simp add: R_def)
    ultimately have "(D + k) * 86400 + h * 3600 + mi * 60 + s = absSec t + k * 86400"
      by (simp add: algebra_simps)
    then show ?thesis unfolding D_def[symmetric] by (simp add: secondsPerDay_def)
  qed
  finally show ?thesis by (simp add: absSec_def)
qed

lemma absDate_same_day:
  "a div secondsPerDay = b div secondsPerDay \<Longrightarrow> absDate a = absDate b"
  by (simp only: absDate_def)

lemma timeYMD_same_day:
  "absSec t div secondsPerDay = absSec t' div secondsPerDay \<Longrightarrow> timeYMD t = timeYMD t'"
  by (simp only: timeYMD_def absDate_same_day[of "absSec t" "absSec t'"])

text \<open>05:00 on the local day a time lies in.\<close>

lemma fiveOClock:
  assumes "timeYMD t = (y, m, d)"
  defines "s \<equiv> timeDate y m d 5 0 0"
  shows "absSec s = (absSec t div secondsPerDay) * secondsPerDay + 18000"
    and "timeYMD s = timeYMD t" and "timeClock s = (5, 0, 0)"
proof -
  have "s = (absSec t div secondsPerDay + 0) * secondsPerDay + 5 * 3600 + 0 * 60 + 0
             - unixToInternal - jstOffset"
    unfolding s_def using timeDate_timeYMD[OF assms(1), of 0 5 0 0] by simp
  then show a: "absSec s = (absSec t div secondsPerDay) * secondsPerDay + 18000"
    by (simp add: absSec_def)
  have dv: "absSec s div secondsPerDay = absSec t div secondsPerDay"
    unfolding a by (simp add: secondsPerDay_def)
  then show "timeYMD s = timeYMD t" by (rule timeYMD_same_day)
  have "absSec s mod secondsPerDay = 18000"
    unfolding a by (simp add: secondsPerDay_def)
  then show "timeClock s = (5, 0, 0)" by (simp add: timeClock_def)
qed

lemma window_of_target:
  assumes "timeYMD t = (y, m, d)"
  shows "(let (year, month, day) = timeYMD t;
              startTime = timeDate year month day 5 0 0;
              endTime = AddDate startTime 0 0 1
          in Inr (startTime, endTime)) = (Inr (timeDate y m d 5 0 0, timeDate y m d 5 0 0 + 86400) :: error + int \<times> int)"
  by (simp add: assms AddDate_days secondsPerDay_def Let_def)

lemma dayWindow_now:
  "dayWindow now '''' =
     (let t = (if timeHour now < 5 then now - 86400 else now); (y, m, d) = timeYMD t
      in Inr (timeDate y m d 5 0 0, timeDate y m d 5 0 0 + 86400))"
proof -
  define t where "t = (if timeHour now < 5 then now - 86400 else now)"
  obtain y m d where ymd: "timeYMD t = (y, m, d)" by (cases "timeYMD t") auto
  have "dayWindow now '''' =
          (let (year, month, day) = timeYMD t;
              startTime = timeDate year month day 5 0 0;
              endTime = AddDate startTime 0 0 1
          in Inr (startTime, endTime))"
    by (simp add: dayWindow_def AddDate_days t_def secondsPerDay_def)
  also have "\<dots> = Inr (timeDate y m d 5 0 0, timeDate y m d 5 0 0 + 86400)"
    by (rule window_of_target[OF ymd])
  finally show ?thesis by (simp add: t_def[symmetric] ymd)
qed

lemma dayWindow_parsed:
  assumes "dateStr \<noteq> ''''" "ParseInLocation dateStr = Inr t" "timeYMD t = (y, m, d)"
  shows "dayWindow now dateStr = Inr (timeDate y m d 5 0 0, timeDate y m d 5 0 0 + 86400)"
proof -
  have "dayWindow now dateStr =
          (let (year, month, day) = timeYMD t;
              startTime = timeDate year month day 5 0 0;
              endTime = AddDate startTime 0 0 1
          in Inr (startTime, endTime))"
    using assms(1,2) by (simp add: dayWindow_def)
  also have "\<dots> = Inr (timeDate y m d 5 0 0, timeDate y m d 5 0 0 + 86400)"
    by (rule window_of_target[OF assms(3)])
  finally show ?thesis .
qed

lemma dayWindow_shape:
  assumes "dayWindow now dateStr = Inr (s, e)"
  shows "e = s + 86400 \<and> timeClock s = (5, 0, 0) \<and> timeClock e = (5, 0, 0)"
proof -
  have "\<exists>t y m d. timeYMD t = (y, m, d) \<and> s = timeDate y m d 5 0 0 \<and> e = s + 86400"
  proof (cases "dateStr = ''''")
    case True
    define t where "t = (if timeHour now < 5 then now - 86400 else now)"
    obtain y m d where ymd: "timeYMD t = (y, m, d)" by (cases "timeYMD t") auto
    from assms True ymd have "s = timeDate y m d 5 0 0 \<and> e = s + 86400"
      by (simp add: dayWindow_now t_def[symmetric])
    with ymd show ?thesis by blast
  next
    case False
    from assms False obtain t where p: "ParseInLocation dateStr = Inr t"
      by (cases "ParseInLocation dateStr") (auto simp: dayWindow_def)
    obtain y m d where ymd: "timeYMD t = (y, m, d)" by (cases "timeYMD t") auto
    from dayWindow_parsed[OF False p ymd, of now] assms
    have "s = timeDate y m d 5 0 0 \<and> e = s + 86400" by simp
    with ymd show ?thesis by blast
  qed
  then obtain t y m d where ymd: "timeYMD t = (y, m, d)" and s: "s = timeDate y m d 5 0 0"
    and e: "e = s + 86400" by blast
  have cs: "timeClock s = (5, 0, 0)" unfolding s by (rule fiveOClock(3)[OF ymd])
  have "absSec e = absSec s + 86400" unfolding e by (simp add: absSec_def)
  then have "absSec e mod secondsPerDay = absSec s mod secondsPerDay"
    by (simp add: secondsPerDay_def)
  with cs have "timeClock e = (5, 0, 0)" by (simp add: timeClock_def)
  with e cs show ?thesis by simp
qed

lemma parse_20240101: "ParseInLocation ''20240101'' = Inr 1704034800"
  by code_simp

lemma ymd_20240101: "timeYMD 1704034800 = (2024, 1, 1)"
  by code_simp

lemma start_20240101: "timeDate 2024 1 1 5 0 0 = 1704052800"
  by code_simp

lemma ymd_clock_20240101:
  "timeYMD 1704052800 = (2024, 1, 1) \<and> timeClock 1704052800 = (5, 0, 0)
   \<and> timeYMD 1704139200 = (2024, 1, 2) \<and> timeClock 1704139200 = (5, 0, 0)"
  by code_simp

lemma ParseInLocation_midnight:
  assumes "ParseInLocation v = Inr t"
  shows "absSec t mod secondsPerDay = 0"
proof -
  from assms obtain year month day where "t = timeDate year month day 0 0 0"
    by (auto simp: ParseInLocation_def split: if_splits option.splits prod.splits)
  then show ?thesis by (simp add: timeDate_def Let_def absSec_def)
qed

lemma dayWindow_parsed_plus5:
  assumes "dateStr \<noteq> ''''" "ParseInLocation dateStr = Inr t"
  shows "dayWindow now dateStr = Inr (t + 18000, t + 18000 + 86400)"
proof -
  obtain y m d where ymd: "timeYMD t = (y, m, d)" by (cases "timeYMD t") auto
  have "absSec t div secondsPerDay * secondsPerDay + absSec t mod secondsPerDay = absSec t"
    by simp
  with ParseInLocation_midnight[OF assms(2)]
  have "absSec t div secondsPerDay * secondsPerDay = absSec t" by simp
  with fiveOClock(1)[OF ymd] have "absSec (timeDate y m d 5 0 0) = absSec t + 18000" by simp
  then have "timeDate y m d 5 0 0 = t + 18000" by (simp add: absSec_def)
  with dayWindow_parsed[OF assms ymd, of now] show ?thesis by simp
qed

lemma dayWindow_before_five:
  assumes "timeHour now < 5"
  shows "\<exists>s. dayWindow now '''' = Inr (s, s + 86400) \<and> timeYMD s = timeYMD (now - 86400)
             \<and> timeClock s = (5, 0, 0)
             \<and> (\<forall>y m d. timeYMD now = (y, m, d) \<longrightarrow> s = timeDate y m (d - 1) 5 0 0)"
proof -
  obtain y m d where ymd: "timeYMD (now - 86400) = (y, m, d)" by (cases "timeYMD (now - 86400)") auto
  define s where "s = timeDate y m d 5 0 0"
  have w: "dayWindow now '''' = Inr (s, s + 86400)"
    using assms ymd by (simp add: dayWindow_now s_def)
  have "s = timeDate y' m' (d' - 1) 5 0 0" if t: "timeYMD now = (y', m', d')" for y' m' d'
  proof -
    have "absSec (now - 86400) div secondsPerDay = absSec now div secondsPerDay - 1"
    proof -
      have "absSec (now - 86400) = absSec now + (- 1) * 86400" by (simp add: absSec_def)
      then show ?thesis unfolding secondsPerDay_def by (simp only: div_mult_self1)
    qed
    with fiveOClock(1)[OF ymd]
    have "absSec s = (absSec now div secondsPerDay - 1) * secondsPerDay + 18000"
      by (simp add: s_def)
    moreover have "timeDate y' m' (d' + (- 1)) 5 0 0 =
        (absSec now div secondsPerDay + (- 1)) * secondsPerDay + 5 * 3600 + 0 * 60 + 0
          - unixToInternal - jstOffset"
      by (rule timeDate_timeYMD[OF t])
    ultimately show ?thesis by (simp add: absSec_def)
  qed
  then have "\<forall>y' m' d'. timeYMD now = (y', m', d') \<longrightarrow> s = timeDate y' m' (d' - 1) 5 0 0"
    by blast
  moreover have "timeYMD s = timeYMD (now - 86400)" "timeClock s = (5, 0, 0)"
    unfolding s_def by (rule fiveOClock(2,3)[OF ymd])+
  ultimately show ?thesis using w by blast
qed

lemma dayWindow_from_five:
  assumes "5 \<le> timeHour now"
  shows "\<exists>s. dayWindow now '''' = Inr (s, s + 86400) \<and> timeYMD s = timeYMD now
             \<and> timeClock s = (5, 0, 0)
             \<and> (\<forall>y m d. timeYMD now = (y, m, d) \<longrightarrow> s = timeDate y m d 5 0 0)"
proof -
  obtain y m d where ymd: "timeYMD now = (y, m, d)" by (cases "timeYMD now") auto
  define s where "s = timeDate y m d 5 0 0"
  have w: "dayWindow now '''' = Inr (s, s + 86400)"
    using assms ymd by (simp add: dayWindow_now s_def)
  have "timeYMD s = timeYMD now" "timeClock s = (5, 0, 0)"
    unfolding s_def by (rule fiveOClock(2,3)[OF ymd])+
  moreover have "\<forall>y' m' d'. timeYMD now = (y', m', d') \<longrightarrow> s = timeDate y' m' d' 5 0 0"
    using ymd by (simp add: s_def)
  ultimately show ?thesis using w by blast
qed

subsection \<open>From 05:00 to 05:00\<close>

text \<open>
  Claim C2. For the date argument \<open>20240101\<close> the window runs from 2024-01-01 05:00 to
  2024-01-02 05:00 local time (Unix 1704052800 to 1704139200), whatever the clock says. With no
  date argument and a local time before 05:00 the window starts at 05:00 of the previous
  calendar date (the date 24 hours earlier; \<open>time.Date\<close> of today's year and month with
  today's day minus one); from 05:00 on it starts at 05:00 of the current calendar date. In
  every case the window ends exactly 86400 seconds after it starts, at 05:00 local time of
  the next day, and for every date argument the parser accepts it starts five hours after
  the midnight the parser returns.
\<close>

theorem dayWindow_five_to_five:
  "dayWindow now ''20240101'' = Inr (1704052800, 1704139200)
   \<and> timeYMD 1704052800 = (2024, 1, 1) \<and> timeClock 1704052800 = (5, 0, 0)
   \<and> timeYMD 1704139200 = (2024, 1, 2) \<and> timeClock 1704139200 = (5, 0, 0)
   \<and> (timeHour nowA < 5 \<longrightarrow>
        (\<exists>s. dayWindow nowA '''' = Inr (s, s + 86400) \<and> timeYMD s = timeYMD (nowA - 86400)
              \<and> timeClock s = (5, 0, 0)
              \<and> (\<forall>y m d. timeYMD nowA = (y, m, d) \<longrightarrow> s = timeDate y m (d - 1) 5 0 0)))
   \<and> (5 \<le> timeHour nowB \<longrightarrow>
        (\<exists>s. dayWindow nowB '''' = Inr (s, s + 86400) \<and> timeYMD s = timeYMD nowB
              \<and> timeClock s = (5, 0, 0)
              \<and> (\<forall>y m d. timeYMD nowB = (y, m, d) \<longrightarrow> s = timeDate y m d 5 0 0)))
   \<and> (dayWindow nowC dateStr = Inr (startTimeUnix, endTimeUnix) \<longrightarrow>
        endTimeUnix = startTimeUnix + 86400 \<and> timeClock startTimeUnix = (5, 0, 0)
        \<and> timeClock endTimeUnix = (5, 0, 0))
   \<and> (explicitDate \<noteq> '''' \<and> ParseInLocation explicitDate = Inr midnight \<longrightarrow>
        dayWindow nowD explicitDate = Inr (midnight + 18000, midnight + 18000 + 86400))"
proof (intro conjI impI)
  show "dayWindow now ''20240101'' = Inr (1704052800, 1704139200)"
    using dayWindow_parsed_plus5[OF _ parse_20240101, of now] by simp
  show "timeYMD 1704052800 = (2024, 1, 1)" "timeClock 1704052800 = (5, 0, 0)"
    "timeYMD 1704139200 = (2024, 1, 2)" "timeClock 1704139200 = (5, 0, 0)"
    using ymd_clock_20240101 by simp_all
  show "\<exists>s. dayWindow nowA '''' = Inr (s, s + 86400) \<and> timeYMD s = timeYMD (nowA - 86400)
              \<and> timeClock s = (5, 0, 0)
              \<and> (\<forall>y m d. timeYMD nowA = (y, m, d) \<longrightarrow> s = timeDate y m (d - 1) 5 0 0)"
    if "timeHour nowA < 5" using that by (rule dayWindow_before_five)
  show "\<exists>s. dayWindow nowB '''' = Inr (s, s + 86400) \<and> timeYMD s = timeYMD nowB
              \<and> timeClock s = (5, 0, 0)
              \<and> (\<forall>y m d. timeYMD nowB = (y, m, d) \<longrightarrow> s = timeDate y m d 5 0 0)"
    if "5 \<le> timeHour nowB" using that by (rule dayWindow_from_five)
  show "endTimeUnix = startTimeUnix + 86400" "timeClock startTimeUnix = (5, 0, 0)"
    "timeClock endTimeUnix = (5, 0, 0)"
    if "dayWindow nowC dateStr = Inr (startTimeUnix, endTimeUnix)"
    using dayWindow_shape[OF that] by blast+
  show "dayWindow nowD explicitDate = Inr (midnight + 18000, midnight + 18000 + 86400)"
    if "explicitDate \<noteq> '''' \<and> ParseInLocation explicitDate = Inr midnight"
    using that dayWindow_parsed_plus5 by blast
qed

theorem dayWindow_witness:
  "timeHour 1704051000 = 4 \<and> timeYMD 1704051000 = (2024, 1, 1)
   \<and> dayWindow 1704051000 '''' = Inr (1703966400, 1704052800)
   \<and> timeYMD 1703966400 = (2023, 12, 31)
   \<and> timeHour 1704052860 = 5 \<and> dayWindow 1704052860 '''' = Inr (1704052800, 1704139200)
   \<and> dayWindow 0 ''20240101'' = Inr (1704052800, 1704139200)"
proof -
  have hA: "timeHour 1704051000 < 5" by code_simp
  have hB: "5 \<le> timeHour 1704052860" by code_simp
  have vA: "timeHour 1704051000 = 4 \<and> timeYMD 1704051000 = (2024, 1, 1)
      \<and> timeYMD 1703966400 = (2023, 12, 31) \<and> timeHour 1704052860 = 5
      \<and> timeYMD 1704052860 = (2024, 1, 1)
      \<and> timeDate 2024 1 (1 - 1) 5 0 0 = 1703966400 \<and> timeDate 2024 1 1 5 0 0 = 1704052800"
    by code_simp
  have hD: "''20240101'' \<noteq> '''' \<and> ParseInLocation ''20240101'' = Inr 1704034800"
    by code_simp
  from dayWindow_five_to_five[where now = 0 and nowA = 1704051000 and nowB = 1704052860
        and nowC = 0 and dateStr = "''20240101''" and startTimeUnix = 1704052800
        and endTimeUnix = 1704139200 and explicitDate = "''20240101''" and midnight = 1704034800
        and nowD = 0] hA hB hD vA
  show ?thesis by auto
qed

section \<open>The win/loss tally\<close>

lemma find_None_no_participant:
  "find (\<lambda>p. participant_PUUID p = puuid) ps = None \<longleftrightarrow> \<not> (\<exists>p \<in> set ps. participant_PUUID p = puuid)"
  by (auto simp add: find_None_iff)

lemma tallyStep_counters:
  "counters (tallyStep e puuid s en (w, l, tr) matchID) =
     (w + (if countsAs True e puuid s en matchID then 1 else 0),
      l + (if countsAs False e puuid s en matchID then 1 else 0))"
  by (simp add: counters_def tallyStep_def countsAs_def inWindowRanked_def rankedSoloQueueID_def
      Let_def split: sum.splits option.splits)

lemma foldl_tallyStep_counters:
  "counters (foldl (tallyStep e puuid s en) (w, l, tr) matchIDs) =
     (w + int (length (filter (countsAs True e puuid s en) matchIDs)),
      l + int (length (filter (countsAs False e puuid s en) matchIDs)))"
proof (induction matchIDs arbitrary: w l tr)
  case Nil
  then show ?case by (simp add: counters_def)
next
  case (Cons matchID matchIDs)
  obtain w' l' tr' where st: "tallyStep e puuid s en (w, l, tr) matchID = (w', l', tr')"
    by (cases "tallyStep e puuid s en (w, l, tr) matchID") auto
  with tallyStep_counters[of e puuid s en w l tr matchID]
  have "w' = w + (if countsAs True e puuid s en matchID then 1 else 0)"
    "l' = l + (if countsAs False e puuid s en matchID then 1 else 0)"
    by (simp_all add: counters_def)
  with Cons.IH[of w' l' tr'] st show ?case by simp
qed

lemma tallyStep_changes:
  assumes "getMatchDetails e matchID = Inr m"
  shows "(counters (tallyStep e puuid s en (w, l, tr) matchID) \<noteq> (w, l))
           = (inWindowRanked s en m \<and> (\<exists>p \<in> set (Participants m). participant_PUUID p = puuid))"
proof (cases "find (\<lambda>p. participant_PUUID p = puuid) (Participants m)")
  case None
  then have "\<not> (\<exists>p \<in> set (Participants m). participant_PUUID p = puuid)"
    using find_None_no_participant[of puuid "Participants m"] by blast
  with None assms show ?thesis by (simp add: tallyStep_counters countsAs_def)
next
  case (Some p)
  then have "p \<in> set (Participants m)" "participant_PUUID p = puuid"
    by (auto simp: find_Some_iff)
  then have "\<exists>p \<in> set (Participants m). participant_PUUID p = puuid" by blast
  with Some assms show ?thesis by (simp add: tallyStep_counters countsAs_def)
qed

lemma tallyStep_winner:
  assumes "getMatchDetails e matchID = Inr m" "inWindowRanked s en m"
    "find (\<lambda>p. participant_PUUID p = puuid) (Participants m) = Some p"
  shows "counters (tallyStep e puuid s en (w, l, tr) matchID) = (if Win p then (w + 1, l) else (w, l + 1))"
  using assms by (simp add: tallyStep_counters countsAs_def)

subsection \<open>Which matches count\<close>

text \<open>
  Claim C3, as amended. A fetched match changes the win/loss counters if and only if its
  creation time, converted from milliseconds to seconds, satisfies
  \<open>start \<le> creation < end\<close>, its queue id is 420, and it lists a participant whose PUUID
  is the resolved account's. Then exactly one counter grows by one, chosen by the win flag
  of the first such participant. A match created exactly at \<open>end\<close> is outside the window,
  one created exactly at \<open>start\<close> (in queue 420) is inside; a match whose details cannot be
  fetched changes nothing; and the loop ends with the number of matches that count as wins
  and as losses. As stated, without the condition on the participants, the claim fails:
  \<open>tally_skips_match_without_the_player\<close> below shows a match of the window and the queue
  that changes no counter.
\<close>

theorem tally_counts_window_matches_of_the_player:
  "(getMatchDetails e matchID = Inr m \<longrightarrow>
      (counters (tallyStep e puuid s en (w, l, tr) matchID) \<noteq> (w, l))
        = (s \<le> GameCreation m sdiv 1000 \<and> GameCreation m sdiv 1000 < en \<and> QueueID m = 420
           \<and> (\<exists>p \<in> set (Participants m). participant_PUUID p = puuid)))
   \<and> (getMatchDetails e matchID = Inr m \<and> inWindowRanked s en m
        \<and> find (\<lambda>p. participant_PUUID p = puuid) (Participants m) = Some p \<longrightarrow>
        counters (tallyStep e puuid s en (w, l, tr) matchID)
          = (if Win p then (w + 1, l) else (w, l + 1)))
   \<and> (GameCreation m sdiv 1000 = en \<longrightarrow> \<not> inWindowRanked s en m)
   \<and> (GameCreation m sdiv 1000 = s \<and> s < en \<and> QueueID m = 420 \<longrightarrow> inWindowRanked s en m)
   \<and> (getMatchDetails e matchID = Inl err \<longrightarrow>
        counters (tallyStep e puuid s en (w, l, tr) matchID) = (w, l))
   \<and> counters (tallyLoop e puuid s en matchIDs)
        = (int (length (filter (countsAs True e puuid s en) matchIDs)),
           int (length (filter (countsAs False e puuid s en) matchIDs)))"
proof (intro conjI impI)
  show "(counters (tallyStep e puuid s en (w, l, tr) matchID) \<noteq> (w, l))
        = (s \<le> GameCreation m sdiv 1000 \<and> GameCreation m sdiv 1000 < en \<and> QueueID m = 420
           \<and> (\<exists>p \<in> set (Participants m). participant_PUUID p = puuid))"
    if "getMatchDetails e matchID = Inr m"
    using tallyStep_changes[OF that, of puuid s en w l tr] by (simp add: inWindowRanked_def)
  show "counters (tallyStep e puuid s en (w, l, tr) matchID)
          = (if Win p then (w + 1, l) else (w, l + 1))"
    if "getMatchDetails e matchID = Inr m \<and> inWindowRanked s en m
        \<and> find (\<lambda>p. participant_PUUID p = puuid) (Participants m) = Some p"
    using that tallyStep_winner by blast
  show "\<not> inWindowRanked s en m" if "GameCreation m sdiv 1000 = en"
    using that by (simp add: inWindowRanked_def)
  show "inWindowRanked s en m" if "GameCreation m sdiv 1000 = s \<and> s < en \<and> QueueID m = 420"
    using that by (simp add: inWindowRanked_def)
  show "counters (tallyStep e puuid s en (w, l, tr) matchID) = (w, l)"
    if "getMatchDetails e matchID = Inl err"
    using that by (simp add: tallyStep_counters countsAs_def)
  show "counters (tallyLoop e puuid s en matchIDs)
        = (int (length (filter (countsAs True e puuid s en) matchIDs)),
           int (length (filter (countsAs False e puuid s en) matchIDs)))"
    using foldl_tallyStep_counters[of e puuid s en 0 0 "[]" matchIDs] by (simp add: tallyLoop_def)
qed

theorem tally_witness:
  "counters (tallyStep dayEnv ''p-un'' 1704052800 1704139200 (0, 0, []) ''M2'') = (1, 0)
   \<and> inWindowRanked 1704052800 1704139200 winAtStart
   \<and> counters (tallyLoop dayEnv ''p-un'' 1704052800 1704139200
        [''M1'', ''M2'', ''M3'', ''M4'', ''M5'', ''M6'']) = (1, 1)"
proof -
  have h1: "getMatchDetails dayEnv ''M2'' = Inr winAtStart" by code_simp
  have h2: "inWindowRanked 1704052800 1704139200 winAtStart" by code_simp
  have h3: "find (\<lambda>p. participant_PUUID p = ''p-un'') (Participants winAtStart)
              = Some \<lparr>participant_PUUID = ''p-un'', Win = True\<rparr>" by code_simp
  have h4: "GameCreation winAtStart sdiv 1000 = 1704052800 \<and> (1704052800 :: int) < 1704139200
              \<and> QueueID winAtStart = 420" by code_simp
  have c: "filter (countsAs True dayEnv ''p-un'' 1704052800 1704139200)
             [''M1'', ''M2'', ''M3'', ''M4'', ''M5'', ''M6''] = [''M2'']
           \<and> filter (countsAs False dayEnv ''p-un'' 1704052800 1704139200)
             [''M1'', ''M2'', ''M3'', ''M4'', ''M5'', ''M6''] = [''M4'']" by code_simp
  from tally_counts_window_matches_of_the_player[where e = dayEnv and matchID = "''M2''"
         and m = winAtStart and puuid = "''p-un''" and s = 1704052800 and en = 1704139200
         and w = 0 and l = 0 and tr = "[]" and p = "\<lparr>participant_PUUID = ''p-un'', Win = True\<rparr>"
         and matchIDs = "[''M1'', ''M2'', ''M3'', ''M4'', ''M5'', ''M6'']"]
       h1 h2 h3 h4 c
  show ?thesis by simp
qed

theorem tally_skips_match_without_the_player:
  "getMatchDetails dayEnv ''M1'' = Inr strayMatch
   \<and> 1704052800 \<le> GameCreation strayMatch sdiv 1000
   \<and> GameCreation strayMatch sdiv 1000 < 1704139200
   \<and> QueueID strayMatch = 420
   \<and> counters (tallyStep dayEnv ''p-un'' 1704052800 1704139200 (0, 0, []) ''M1'') = (0, 0)"
  by code_simp

section \<open>The delay before calls of the remote service\<close>

text \<open>The \<open>!ranking\<close> and \<open>!rank\<close> branches sleep before every call, in every
  environment.\<close>

lemma delayed_True: "delayed False tr \<Longrightarrow> delayed True tr"
proof (cases tr)
  case Nil
  then show ?thesis by simp
next
  case (Cons ev rest)
  assume "delayed False tr"
  with Cons show ?thesis by (cases ev) simp_all
qed

lemma delayed_append: "delayed prev a \<Longrightarrow> delayed False b \<Longrightarrow> delayed prev (a @ b)"
proof (induction prev a rule: delayed.induct)
  case (1 prev)
  then show ?case by (cases prev) (simp_all add: delayed_True)
qed simp_all

lemma rankingStep_snd: "snd (rankingStep e (ranks, tr) raw) = tr @ stepTrace e raw"
  by (simp add: stepTrace_def rankingStep_def Let_def split: sum.splits option.splits)

lemma delayed_stepTrace: "delayed False (stepTrace e raw)"
  by (simp add: stepTrace_def rankingStep_def Let_def split: sum.splits option.splits)

lemma foldl_rankingStep_delayed:
  "delayed False tr \<Longrightarrow> delayed False (snd (foldl (rankingStep e) (ranks, tr) roster))"
proof (induction roster arbitrary: ranks tr)
  case Nil
  then show ?case by simp
next
  case (Cons raw roster)
  obtain ranks' tr' where st: "rankingStep e (ranks, tr) raw = (ranks', tr')"
    by (cases "rankingStep e (ranks, tr) raw")
  then have "tr' = tr @ stepTrace e raw" using rankingStep_snd[of e ranks tr raw] by simp
  with Cons.prems have "delayed False tr'" by (simp add: delayed_append delayed_stepTrace)
  with Cons.IH[of tr' ranks'] st show ?case by simp
qed

lemma delayed_deliver: "delayed False (deliver e msg)"
  by (simp add: deliver_def)

lemma handleRanking_delayed: "delayedCalls (handleRanking e st)"
proof -
  obtain collected tr where rl: "rankingLoop e (lolPlayersEnv st) = (collected, tr)"
    by (cases "rankingLoop e (lolPlayersEnv st)")
  have "delayed False tr"
    using foldl_rankingStep_delayed[of "[]" e "[]" "lolPlayersEnv st"] rl
    by (simp add: rankingLoop_def)
  then have "delayed False (tr @ deliver e msg)" for msg
    by (rule delayed_append) (rule delayed_deliver)
  then show ?thesis
    by (simp add: delayedCalls_def handleRanking_def rl Let_def)
qed

lemma rankStep_snd: "snd (rankStep e (infos, tr) raw) = tr @ rankStepTrace e raw"
  by (simp add: rankStepTrace_def rankStep_def Let_def split: sum.splits option.splits)

lemma delayed_rankStepTrace: "delayed False (rankStepTrace e raw)"
  by (simp add: rankStepTrace_def rankStep_def Let_def split: sum.splits option.splits)

lemma foldl_rankStep_delayed:
  "delayed False tr \<Longrightarrow> delayed False (snd (foldl (rankStep e) (infos, tr) names))"
proof (induction names arbitrary: infos tr)
  case Nil
  then show ?case by simp
next
  case (Cons raw names)
  obtain infos' tr' where st: "rankStep e (infos, tr) raw = (infos', tr')"
    by (cases "rankStep e (infos, tr) raw")
  then have "tr' = tr @ rankStepTrace e raw" using rankStep_snd[of e infos tr raw] by simp
  with Cons.prems have "delayed False tr'" by (simp add: delayed_append delayed_rankStepTrace)
  with Cons.IH[of tr' infos'] st show ?case by simp
qed

lemma handleRank_delayed: "delayedCalls (handleRank e content)"
proof (cases "length (split CHR '' '' content) < 2")
  case True
  then show ?thesis by (simp add: delayedCalls_def handleRank_def)
next
  case False
  obtain infos tr where fl: "foldl (rankStep e) ([], []) (tl (split CHR '' '' content)) = (infos, tr)"
    by (cases "foldl (rankStep e) ([], []) (tl (split CHR '' '' content))")
  have "delayed False tr"
    using foldl_rankStep_delayed[of "[]" e "[]" "tl (split CHR '' '' content)"] fl by simp
  then have "delayed False (tr @ [Send (RankMsg infos)])"
    by (rule delayed_append) simp
  with False show ?thesis by (simp add: delayedCalls_def handleRank_def fl Let_def)
qed

subsection \<open>Calls that no delay precedes\<close>

text \<open>
  Claim C7 says that the fixed delay precedes every outbound call of every command. The
  \<open>!ranking\<close> and \<open>!rank\<close> branches do sleep before each call, and so does the loop over the
  matches of \<open>!daystats\<close>. But \<open>!add\<close> calls the account endpoint at once, and \<open>!daystats\<close>
  calls the account endpoint and then the match-id endpoint with no sleep before either:
  the traces below are what the handlers do on \<open>!add un#1\<close> and on
  \<open>!daystats un#1 20240101\<close>.
\<close>

theorem add_and_daystats_call_without_delay:
  "snd (messageCreate dayEnv emptyState ''!add un#1'')
     = [Call (AccountReq ''un'' ''1''), Send (AddedMsg ''un#1'')]
   \<and> \<not> delayedCalls (snd (messageCreate dayEnv emptyState ''!add un#1''))
   \<and> take 5 (snd (messageCreate dayEnv emptyState ''!daystats un#1 20240101''))
     = [Send (DayProcessingMsg ''un#1'' 1704052800 1704139200),
        Call (AccountReq ''un'' ''1''),
        Call (MatchIDsReq ''p-un'' 1704052800 1704139200 420 100),
        Sleep, Call (MatchDetailReq ''M1'')]
   \<and> \<not> delayedCalls (snd (messageCreate dayEnv emptyState ''!daystats un#1 20240101''))
   \<and> delayedCalls (snd (messageCreate dayEnv \<lparr>lolPlayersEnv = sampleRoster, envFile = None\<rparr> ''!ranking''))
   \<and> delayedCalls (snd (messageCreate dayEnv emptyState ''!rank un#1''))"
  by code_simp

theorem add_and_daystats_call_without_delay_witness:
  "\<not> delayedCalls [Call (AccountReq ''un'' ''1''), Send (AddedMsg ''un#1'')]"
proof -
  from add_and_daystats_call_without_delay
  have a: "snd (messageCreate dayEnv emptyState ''!add un#1'')
             = [Call (AccountReq ''un'' ''1''), Send (AddedMsg ''un#1'')]"
    and b: "\<not> delayedCalls (snd (messageCreate dayEnv emptyState ''!add un#1''))"
    by blast+
  from b show ?thesis unfolding a .
qed

end
